theory Spec2Isabelle
  imports
    Main
    "HOL-Library.List_Lexorder"
    "HOL-Library.Option_ord"
    "HOL-Library.Product_Lexorder"
    "HOL-Library.Sublist"
    "HOL-Library.Multiset"
begin

section \<open>Strings and values\<close>

text \<open>
  A Python \<open>str\<close> is a sequence of Unicode code points; \<open>len\<close>, slicing and \<open>in\<close> count code
  points. It is modelled as a list of natural numbers, one per code point. \<open>py\<close> turns an
  ASCII literal of the source into such a string.
\<close>

type_synonym pystr = "nat list"

definition py :: "string \<Rightarrow> pystr" where
  "py s = map of_char s"

text \<open>
  The values bound to the parameters of the SQL statement: Python \<open>None\<close> is SQL \<open>NULL\<close>, a
  \<open>str\<close> is \<open>TEXT\<close>. An item is a \<open>dict\<close> from column names to such values.
\<close>

datatype sqlval = Null | Text pystr

type_synonym item = "string \<rightharpoonup> sqlval"

text \<open>
  \<open>x or y\<close> on values that are a \<open>str\<close> or \<open>None\<close>: the empty string and \<open>None\<close> are falsy.
\<close>

fun truthy :: "pystr option \<Rightarrow> bool" where
  "truthy (Some s) = (s \<noteq> [])"
| "truthy None = False"

definition py_or :: "pystr option \<Rightarrow> pystr option \<Rightarrow> pystr option" where
  "py_or a b = (if truthy a then a else b)"

fun or_empty :: "pystr option \<Rightarrow> pystr" where
  "or_empty (Some s) = s"
| "or_empty None = []"

section \<open>feed\_parser.py\<close>

subsection \<open>The environment of a fetch\<close>

text \<open>
  A feed entry and a source descriptor are dicts read with \<open>get\<close> and \<open>[]\<close>. The parsed
  feed carries the \<open>bozo\<close> flag and the entries.
\<close>

type_synonym entry = "string \<rightharpoonup> pystr"
type_synonym source = "string \<rightharpoonup> pystr"

record feed =
  bozo :: bool
  entries :: "entry list"

text \<open>
  A \<open>datetime\<close> value; \<open>tzinfo\<close> is the UTC offset in seconds, \<open>None\<close> for a naive value.
\<close>

record datetime =
  year :: nat
  month :: nat
  day :: nat
  hour :: nat
  minute :: nat
  second :: nat
  microsecond :: nat
  tzinfo :: "int option"

datatype fetch_failure = Timeout | BadStatus nat | ConnectionError

datatype py_exn = KeyError string | LoadError

text \<open>
  What the program takes from outside, as parameters: the outcome of reading
  \<open>sources.yaml\<close>, the outcome of the HTTP request of the \<open>k\<close>-th source (the body, or the
  exception of \<open>client.get\<close> or \<open>raise_for_status\<close>), \<open>feedparser.parse\<close>,
  \<open>dateutil.parser.parse\<close> (\<open>None\<close> when it raises), \<open>str.lower\<close>, and the clock:
  \<open>clock k 0\<close> is the reading taken when the task of the \<open>k\<close>-th source starts,
  \<open>clock k (Suc j)\<close> the reading available while its \<open>j\<close>-th entry is normalised.
\<close>

record env =
  load_sources :: "py_exn + source list"
  http_fetch :: "nat \<Rightarrow> pystr \<Rightarrow> fetch_failure + nat list"
  feedparser_parse :: "nat list \<Rightarrow> feed"
  dateutil_parse :: "pystr \<Rightarrow> datetime option"
  str_lower :: "pystr \<Rightarrow> pystr"
  clock :: "nat \<Rightarrow> nat \<Rightarrow> datetime"

subsection \<open>Dates\<close>

text \<open>
  \<open>datetime.isoformat()\<close>: \<open>%04d-%02d-%02dT%02d:%02d:%02d\<close>, the microseconds when they
  are not zero, and the offset \<open>+HH:MM\<close> (with \<open>:SS\<close> when it has seconds) of an aware value.
\<close>

fun digits :: "nat \<Rightarrow> pystr" where
  "digits n = (if n < 10 then [48 + n] else digits (n div 10) @ [48 + n mod 10])"

definition zero_pad :: "nat \<Rightarrow> nat \<Rightarrow> pystr" where
  "zero_pad w n = replicate (w - length (digits n)) 48 @ digits n"

definition format_offset :: "int \<Rightarrow> pystr" where
  "format_offset off =
     (let a = nat \<bar>off\<bar>; hh = a div 3600; mm = (a mod 3600) div 60; ss = a mod 60
      in (if off < 0 then py ''-'' else py ''+'') @ zero_pad 2 hh @ py '':'' @ zero_pad 2 mm
           @ (if ss \<noteq> 0 then py '':'' @ zero_pad 2 ss else []))"

definition isoformat :: "datetime \<Rightarrow> pystr" where
  "isoformat dt =
     zero_pad 4 (year dt) @ py ''-'' @ zero_pad 2 (month dt) @ py ''-'' @ zero_pad 2 (day dt)
       @ py ''T'' @ zero_pad 2 (hour dt) @ py '':'' @ zero_pad 2 (minute dt) @ py '':''
       @ zero_pad 2 (second dt)
       @ (if microsecond dt \<noteq> 0 then py ''.'' @ zero_pad 6 (microsecond dt) else [])
       @ (case tzinfo dt of None \<Rightarrow> [] | Some off \<Rightarrow> format_offset off)"

text \<open>\<open>datetime.now(timezone.utc)\<close>: the clock's reading, aware, with offset zero.\<close>

definition now_utc :: "datetime \<Rightarrow> datetime" where
  "now_utc reading = reading\<lparr> tzinfo := Some 0 \<rparr>"

text \<open>
  \<open>_normalize_date\<close>. The \<open>except Exception\<close> branch is the \<open>None\<close> of \<open>dateutil_parse\<close>.
\<close>

definition normalize_date :: "env \<Rightarrow> datetime \<Rightarrow> pystr option \<Rightarrow> pystr" where
  "normalize_date env reading raw =
     (if \<not> truthy raw then isoformat (now_utc reading)
      else
        (case dateutil_parse env (or_empty raw) of
           None \<Rightarrow> isoformat (now_utc reading)
         | Some dt \<Rightarrow> isoformat (if tzinfo dt = None then dt\<lparr> tzinfo := Some 0 \<rparr> else dt)))"

subsection \<open>Summaries\<close>

text \<open>The code points for which \<open>str.isspace\<close> holds; \<open>strip()\<close> removes them at both ends.\<close>

definition isspace :: "nat \<Rightarrow> bool" where
  "isspace c \<longleftrightarrow>
     (9 \<le> c \<and> c \<le> 13) \<or> (28 \<le> c \<and> c \<le> 32) \<or> c = 133 \<or> c = 160 \<or> c = 5760
     \<or> (8192 \<le> c \<and> c \<le> 8202) \<or> c = 8232 \<or> c = 8233 \<or> c = 8239 \<or> c = 8287 \<or> c = 12288"

definition strip :: "pystr \<Rightarrow> pystr" where
  "strip s = rev (dropWhile isspace (rev (dropWhile isspace s)))"

text \<open>
  \<open>re.sub(r"<[^>]+>", "", text)\<close>. After a \<open><\<close> (code point 60) the pattern matches when
  the text that follows has a \<open>>\<close> (code point 62) with at least one character before it;
  the match ends at the first \<open>>\<close>, and \<open>tag_end\<close> returns what follows the match. The
  scan goes on after a match, and one character further where there is none.
\<close>

definition tag_end :: "pystr \<Rightarrow> pystr option" where
  "tag_end cs =
     (case dropWhile (\<lambda>c. c \<noteq> 62) cs of
        [] \<Rightarrow> None
      | g # rest \<Rightarrow> if takeWhile (\<lambda>c. c \<noteq> 62) cs = [] then None else Some rest)"

lemma tag_end_shorter: "tag_end cs = Some rest \<Longrightarrow> length rest < length cs"
proof -
  assume "tag_end cs = Some rest"
  then obtain g where "dropWhile (\<lambda>c. c \<noteq> 62) cs = g # rest"
    by (auto simp: tag_end_def split: list.splits if_splits)
  moreover have "length (dropWhile (\<lambda>c. c \<noteq> 62) cs) \<le> length cs"
    by (rule length_dropWhile_le)
  ultimately show ?thesis by simp
qed

function strip_tags :: "pystr \<Rightarrow> pystr" where
  "strip_tags [] = []"
| "strip_tags (c # cs) =
     (if c = 60 then
        (case tag_end cs of
           Some rest \<Rightarrow> strip_tags rest
         | None \<Rightarrow> c # strip_tags cs)
      else c # strip_tags cs)"
  by pat_completeness auto
termination
  by (relation "measure length") (auto dest: tag_end_shorter)

text \<open>
  Whether the pattern \<open><[^>]+>\<close> matches somewhere in a string: at some \<open><\<close> the rest
  has a closing \<open>>\<close> with at least one character before it.
\<close>

fun has_tag :: "pystr \<Rightarrow> bool" where
  "has_tag [] = False"
| "has_tag (c # cs) = ((c = 60 \<and> tag_end cs \<noteq> None) \<or> has_tag cs)"

definition ellipsis :: pystr where
  "ellipsis = [8230]"

text \<open>\<open>_clean_summary\<close>; \<open>max_len\<close> is only ever the default 300.\<close>

definition clean_summary :: "pystr option \<Rightarrow> nat \<Rightarrow> pystr" where
  "clean_summary text max_len =
     (if \<not> truthy text then []
      else
        let t = strip (strip_tags (or_empty text))
        in take max_len t @ (if length t > max_len then ellipsis else []))"

subsection \<open>One entry\<close>

text \<open>The placeholder title of the source, as code points.\<close>

definition placeholder_title :: pystr where
  "placeholder_title = [40, 51228, 47785, 32, 50630, 51020, 41]"

text \<open>\<open>needle in haystack\<close> on strings.\<close>

fun py_in :: "pystr \<Rightarrow> pystr \<Rightarrow> bool" where
  "py_in needle [] = (needle = [])"
| "py_in needle (c # cs) = (prefix needle (c # cs) \<or> py_in needle cs)"

text \<open>The dict literal that \<open>_fetch_rss\<close> appends for an entry.\<close>

definition news_item ::
  "pystr \<Rightarrow> pystr \<Rightarrow> pystr \<Rightarrow> pystr \<Rightarrow> pystr \<Rightarrow> pystr \<Rightarrow> pystr \<Rightarrow> item" where
  "news_item t u s p n c f =
     [''title'' \<mapsto> Text t, ''url'' \<mapsto> Text u, ''summary'' \<mapsto> Text s,
      ''published_at'' \<mapsto> Text p, ''source_name'' \<mapsto> Text n, ''category'' \<mapsto> Text c,
      ''fetched_at'' \<mapsto> Text f]"

text \<open>The expressions of the loop body of \<open>_fetch_rss\<close>, one definition each.\<close>

definition entry_url :: "entry \<Rightarrow> pystr" where
  "entry_url e = or_empty (py_or (py_or (e ''link'') (e ''id'')) (Some []))"

definition entry_title :: "entry \<Rightarrow> pystr" where
  "entry_title e = strip (case e ''title'' of None \<Rightarrow> placeholder_title | Some t \<Rightarrow> t)"

definition entry_summary :: "entry \<Rightarrow> pystr" where
  "entry_summary e =
     clean_summary (py_or (py_or (e ''summary'') (e ''description'')) (Some [])) 300"

definition entry_published_at :: "env \<Rightarrow> datetime \<Rightarrow> entry \<Rightarrow> pystr" where
  "entry_published_at env reading e =
     normalize_date env reading (py_or (py_or (e ''published'') (e ''updated'')) (e ''created''))"

text \<open>
  The loop body: \<open>None\<close> is \<open>continue\<close>, \<open>Some\<close> the appended item. \<open>filter_keyword\<close> is the
  lower-cased keyword of the source.
\<close>

definition normalize_entry ::
  "env \<Rightarrow> datetime \<Rightarrow> pystr \<Rightarrow> pystr \<Rightarrow> pystr \<Rightarrow> pystr \<Rightarrow> entry \<Rightarrow> item option" where
  "normalize_entry env reading name cat fetched filter_keyword e =
     (if entry_url e = [] then None
      else if filter_keyword \<noteq> [] \<and>
              \<not> py_in filter_keyword (str_lower env (entry_title e @ py '' '' @ entry_summary e))
      then None
      else Some (news_item (entry_title e) (entry_url e) (entry_summary e)
                   (entry_published_at env reading e) name cat fetched))"

fun entries_loop ::
  "env \<Rightarrow> nat \<Rightarrow> pystr \<Rightarrow> pystr \<Rightarrow> pystr \<Rightarrow> pystr \<Rightarrow> nat \<Rightarrow> entry list \<Rightarrow> item list" where
  "entries_loop env k name cat fetched filter_keyword j [] = []"
| "entries_loop env k name cat fetched filter_keyword j (e # es) =
     (case normalize_entry env (clock env k (Suc j)) name cat fetched filter_keyword e of
        None \<Rightarrow> entries_loop env k name cat fetched filter_keyword (Suc j) es
      | Some it \<Rightarrow> it # entries_loop env k name cat fetched filter_keyword (Suc j) es)"

subsection \<open>One source, all sources\<close>

text \<open>
  \<open>_fetch_rss\<close> for the \<open>k\<close>-th source. \<open>source["url"]\<close> and \<open>source["name"]\<close> raise
  \<open>KeyError\<close> on a descriptor that lacks them; a failed request and a malformed body without
  entries return the empty list.
\<close>

definition fetch_rss :: "env \<Rightarrow> nat \<Rightarrow> source \<Rightarrow> py_exn + item list" where
  "fetch_rss env k src =
     (case src ''url'' of
        None \<Rightarrow> Inl (KeyError ''url'')
      | Some u \<Rightarrow>
     (case src ''name'' of
        None \<Rightarrow> Inl (KeyError ''name'')
      | Some name \<Rightarrow>
          let cat = (case src ''category'' of None \<Rightarrow> [] | Some c \<Rightarrow> c);
              fetched = isoformat (now_utc (clock env k 0))
          in
            (case http_fetch env k u of
               Inl exc \<Rightarrow> Inr []
             | Inr raw_content \<Rightarrow>
                 let fd = feedparser_parse env raw_content
                 in if bozo fd \<and> entries fd = [] then Inr []
                    else
                      let filter_keyword =
                            str_lower env
                              (case src ''filter_keyword'' of None \<Rightarrow> [] | Some w \<Rightarrow> w)
                      in Inr (entries_loop env k name cat fetched filter_keyword 0
                                (entries fd)))))"

definition source_type :: "source \<Rightarrow> pystr" where
  "source_type src = (case src ''type'' of None \<Rightarrow> py ''rss'' | Some t \<Rightarrow> t)"

text \<open>
  The \<open>for source in sources\<close> loop of \<open>fetch_all_feeds\<close>: a task is the position of the
  source and the source. The two warning branches read \<open>source['name']\<close>.
\<close>

fun make_tasks :: "nat \<Rightarrow> source list \<Rightarrow> py_exn + (nat \<times> source) list" where
  "make_tasks k [] = Inr []"
| "make_tasks k (src # srcs) =
     (if source_type src = py ''rss'' then
        (case make_tasks (Suc k) srcs of
           Inl exc \<Rightarrow> Inl exc
         | Inr tasks \<Rightarrow> Inr ((k, src) # tasks))
      else if source_type src = py ''scraper'' then
        (case src ''name'' of
           None \<Rightarrow> Inl (KeyError ''name'')
         | Some name \<Rightarrow> make_tasks (Suc k) srcs)
      else
        (case src ''name'' of
           None \<Rightarrow> Inl (KeyError ''name'')
         | Some name \<Rightarrow> make_tasks (Suc k) srcs))"

text \<open>
  \<open>asyncio.gather(*tasks, return_exceptions=True)\<close>: one result per task, in the order of
  the tasks, an exception kept as a value. The tasks share no state of the program.
\<close>

definition gather :: "env \<Rightarrow> (nat \<times> source) list \<Rightarrow> (py_exn + item list) list" where
  "gather env tasks = map (\<lambda>(k, src). fetch_rss env k src) tasks"

fun extend_all :: "(py_exn + item list) list \<Rightarrow> item list" where
  "extend_all [] = []"
| "extend_all (Inl exc # results) = extend_all results"
| "extend_all (Inr its # results) = its @ extend_all results"

definition fetch_all_feeds :: "env \<Rightarrow> py_exn + item list" where
  "fetch_all_feeds env =
     (case load_sources env of
        Inl exc \<Rightarrow> Inl exc
      | Inr srcs \<Rightarrow>
          (case make_tasks 0 srcs of
             Inl exc \<Rightarrow> Inl exc
           | Inr tasks \<Rightarrow> Inr (extend_all (gather env tasks))))"

text \<open>
  What one source adds to the aggregate, in the words of the specification: the items of
  its fetch when it is an \<open>rss\<close> source whose unit of work succeeds, nothing otherwise.
\<close>

definition contribution :: "env \<Rightarrow> nat \<Rightarrow> source \<Rightarrow> item list" where
  "contribution env k src =
     (if source_type src = py ''rss'' then
        (case fetch_rss env k src of Inl exc \<Rightarrow> [] | Inr its \<Rightarrow> its)
      else [])"

text \<open>
  Which entries are kept, stated apart from the loop: an entry with a url survives when the
  source has no keyword, or when the lower-cased keyword occurs in the lower-cased title,
  one space and the cleaned summary, joined. \<open>shown\<close> reads the title, url and summary of
  an emitted item, \<open>expected\<close> those an entry should give.
\<close>

definition survives :: "env \<Rightarrow> pystr \<Rightarrow> entry \<Rightarrow> bool" where
  "survives env kw e \<longleftrightarrow>
     entry_url e \<noteq> [] \<and>
     (kw = [] \<or> sublist (str_lower env kw)
                  (str_lower env (entry_title e @ py '' '' @ entry_summary e)))"

definition shown :: "item \<Rightarrow> sqlval option \<times> sqlval option \<times> sqlval option" where
  "shown it = (it ''title'', it ''url'', it ''summary'')"

definition expected :: "entry \<Rightarrow> sqlval option \<times> sqlval option \<times> sqlval option" where
  "expected e = (Some (Text (entry_title e)), Some (Text (entry_url e)),
                 Some (Text (entry_summary e)))"

section \<open>database.py\<close>

subsection \<open>The table\<close>

text \<open>
  One row of \<open>news_items\<close> as \<open>CREATE_TABLE_SQL\<close> declares it. The columns declared
  \<open>NOT NULL\<close> hold text; \<open>summary\<close> and \<open>published_at\<close> may hold \<open>NULL\<close>. The surrogate key
  \<open>id\<close> is left out: no statement of the program compares or orders by it.
\<close>

record row =
  title :: pystr
  url :: pystr
  summary :: sqlval
  published_at :: sqlval
  source_name :: pystr
  category :: pystr
  fetched_at :: pystr

text \<open>
  The store is the table together with the trace of accesses made to the database file, so
  that "no access" is a statement about the state.
\<close>

datatype access = Connect | CountRows | ExecuteInsert | Commit | SelectPage

record store =
  news_items :: "row list"
  accesses :: "access list"

datatype db_error = ProgrammingError | UnicodeEncodeError | IntegrityError | OverflowError

definition columns :: "string list" where
  "columns = [''title'', ''url'', ''summary'', ''published_at'', ''source_name'',
              ''category'', ''fetched_at'']"

definition not_null_columns :: "string list" where
  "not_null_columns = [''title'', ''url'', ''source_name'', ''category'', ''fetched_at'']"

text \<open>
  A \<open>str\<close> is bound to a parameter as UTF-8. The code points of the surrogate range
  (\<open>0xD800\<close> to \<open>0xDFFF\<close>) have no UTF-8 encoding, and a number above \<open>0x10FFFF\<close> is
  no code point at all.
\<close>

definition encodable :: "pystr \<Rightarrow> bool" where
  "encodable s = list_all (\<lambda>c. c < 55296 \<or> (57343 < c \<and> c \<le> 1114111)) s"

text \<open>
  A value can be bound when the dict supplies it and, if it is a text, the text can be
  encoded. An item can be written when each of the seven named parameters can be bound and
  no \<open>NOT NULL\<close> column would receive \<open>NULL\<close>. Failures of the database engine itself (a
  locked or full file, its size limits) are not part of the model.
\<close>

definition bindable :: "sqlval option \<Rightarrow> bool" where
  "bindable v = (case v of None \<Rightarrow> False | Some Null \<Rightarrow> True | Some (Text s) \<Rightarrow> encodable s)"

definition storable :: "item \<Rightarrow> bool" where
  "storable it \<longleftrightarrow>
     list_all (\<lambda>k. bindable (it k)) columns \<and> list_all (\<lambda>k. it k \<noteq> Some Null) not_null_columns"

fun item_val :: "item \<Rightarrow> string \<Rightarrow> sqlval" where
  "item_val it k = (case it k of Some v \<Rightarrow> v | None \<Rightarrow> Null)"

fun item_text :: "item \<Rightarrow> string \<Rightarrow> pystr" where
  "item_text it k = (case it k of Some (Text s) \<Rightarrow> s | _ \<Rightarrow> [])"

subsection \<open>The upsert\<close>

text \<open>
  The named parameters are bound one after the other, in the order of the statement: a
  parameter the dict lacks raises \<open>ProgrammingError\<close>, a text that cannot be encoded
  raises \<open>UnicodeEncodeError\<close>.
\<close>

fun bind_error :: "sqlval option \<Rightarrow> db_error option" where
  "bind_error None = Some ProgrammingError"
| "bind_error (Some Null) = None"
| "bind_error (Some (Text s)) = (if encodable s then None else Some UnicodeEncodeError)"

fun bind_parameters :: "item \<Rightarrow> string list \<Rightarrow> db_error option" where
  "bind_parameters it [] = None"
| "bind_parameters it (k # ks) =
     (case bind_error (it k) of
        Some e \<Rightarrow> Some e
      | None \<Rightarrow> bind_parameters it ks)"

text \<open>
  \<open>excluded\<close> is the row the \<open>INSERT\<close> would add. After the binding, the \<open>NOT NULL\<close>
  constraints are checked before the uniqueness of \<open>url\<close> and fail with an
  \<open>IntegrityError\<close>, which the \<open>ON CONFLICT\<close> clause does not intercept. Each of these
  exceptions reaches the \<open>except\<close> of the loop.
\<close>

definition excluded :: "item \<Rightarrow> db_error + row" where
  "excluded it =
     (case bind_parameters it columns of
        Some e \<Rightarrow> Inl e
      | None \<Rightarrow>
          if \<not> list_all (\<lambda>k. it k \<noteq> Some Null) not_null_columns then Inl IntegrityError
          else Inr \<lparr> title = item_text it ''title'',
                     url = item_text it ''url'',
                     summary = item_val it ''summary'',
                     published_at = item_val it ''published_at'',
                     source_name = item_text it ''source_name'',
                     category = item_text it ''category'',
                     fetched_at = item_text it ''fetched_at'' \<rparr>)"

text \<open>
  \<open>excluded.summary != ''\<close> is true for a non-empty text, false for the empty text and
  \<open>NULL\<close> for \<open>NULL\<close>; \<open>CASE WHEN\<close> takes the \<open>ELSE\<close> branch unless the condition is true.
\<close>

fun nonempty :: "sqlval \<Rightarrow> bool" where
  "nonempty (Text s) = (s \<noteq> [])"
| "nonempty Null = False"

text \<open>The \<open>DO UPDATE SET\<close> clause, applied to the stored row that conflicts.\<close>

definition do_update :: "row \<Rightarrow> row \<Rightarrow> row" where
  "do_update ex r =
     r\<lparr> summary := (if nonempty (summary ex) then summary ex else summary r),
        fetched_at := fetched_at ex \<rparr>"

text \<open>One execution of the \<open>INSERT ... ON CONFLICT(url) DO UPDATE\<close> statement.\<close>

definition execute_insert :: "row list \<Rightarrow> item \<Rightarrow> db_error + row list" where
  "execute_insert rs it =
     (case excluded it of
        Inl e \<Rightarrow> Inl e
      | Inr ex \<Rightarrow>
          Inr (if url ex \<in> set (map url rs)
               then map (\<lambda>r. if url r = url ex then do_update ex r else r) rs
               else rs @ [ex]))"

text \<open>The \<open>for item in items\<close> loop: an item whose statement raises is logged and skipped.\<close>

fun insert_loop :: "row list \<Rightarrow> item list \<Rightarrow> row list" where
  "insert_loop rs [] = rs"
| "insert_loop rs (it # its) =
     (case execute_insert rs it of
        Inl e \<Rightarrow> insert_loop rs its
      | Inr rs' \<Rightarrow> insert_loop rs' its)"

definition upsert_news_items :: "store \<Rightarrow> item list \<Rightarrow> store \<times> int" where
  "upsert_news_items db items =
     (if items = [] then (db, 0)
      else
        let count_before = int (length (news_items db));
            rs = insert_loop (news_items db) items;
            count_after = int (length rs)
        in (\<lparr> news_items = rs,
              accesses = accesses db @ [Connect, CountRows] @ map (\<lambda>_. ExecuteInsert) items
                           @ [Commit, CountRows] \<rparr>,
            count_after - count_before))"

text \<open>A sequence of calls, each with its own batch; the empty database; the row of a url.\<close>

definition upsert_calls :: "store \<Rightarrow> item list list \<Rightarrow> store" where
  "upsert_calls db batches = fold (\<lambda>b d. fst (upsert_news_items d b)) batches db"

definition empty_store :: store where
  "empty_store = \<lparr> news_items = [], accesses = [] \<rparr>"

definition row_of :: "store \<Rightarrow> pystr \<Rightarrow> row option" where
  "row_of db u = find (\<lambda>r. url r = u) (news_items db)"

text \<open>
  What the statement does to the row of one url, seen alone: nothing when the write fails
  or is for another url, the inserted row when there is none yet, the merged row otherwise.
\<close>

definition merge_into :: "row option \<Rightarrow> row \<Rightarrow> row option" where
  "merge_into ro ex = (case ro of None \<Rightarrow> Some ex | Some r \<Rightarrow> Some (do_update ex r))"

definition track :: "pystr \<Rightarrow> item \<Rightarrow> row option \<Rightarrow> row option" where
  "track u it ro =
     (case excluded it of
        Inl e \<Rightarrow> ro
      | Inr ex \<Rightarrow> if url ex = u then merge_into ro ex else ro)"

text \<open>
  The summary that a run of items for one url leaves behind: the last non-empty one, and
  the summary of the first item when none is non-empty.
\<close>

definition merged_summary :: "item list \<Rightarrow> sqlval" where
  "merged_summary us =
     (case filter nonempty (map (\<lambda>i. item_val i ''summary'') us) of
        [] \<Rightarrow> item_val (hd us) ''summary''
      | ss \<Rightarrow> last ss)"

subsection \<open>The reads\<close>






section \<open>Example data\<close>

text \<open>
  Concrete inputs for the instances below: a lower-casing of ASCII letters, a feed with the
  two entries of the specification's keyword example, three sources (one whose request
  times out, one of an unknown type, one with the keyword \<open>ransomware\<close>), an entry whose
  keyword would only be found across the boundary of title and summary, and a table of five
  rows.
\<close>

definition epoch :: datetime where
  "epoch = \<lparr> year = 1970, month = 1, day = 1, hour = 0, minute = 0, second = 0,
             microsecond = 0, tzinfo = None \<rparr>"

definition new_year :: datetime where
  "new_year = \<lparr> year = 2024, month = 1, day = 1, hour = 0, minute = 0, second = 0,
                microsecond = 0, tzinfo = None \<rparr>"

definition ascii_lower :: "pystr \<Rightarrow> pystr" where
  "ascii_lower = map (\<lambda>c. if 65 \<le> c \<and> c \<le> 90 then c + 32 else c)"

definition summary_entry :: entry where
  "summary_entry = [''link'' \<mapsto> py ''l'', ''title'' \<mapsto> py ''T'', ''summary'' \<mapsto> py '' <p>Hi</p> '']"

definition ransomware_entry :: entry where
  "ransomware_entry = [''link'' \<mapsto> py ''r'', ''title'' \<mapsto> py ''Ransomware attack hits hospital'',
                       ''published'' \<mapsto> [], ''updated'' \<mapsto> py ''2024-01-01T00:00:00'']"

definition phishing_entry :: entry where
  "phishing_entry = [''link'' \<mapsto> py ''p'', ''title'' \<mapsto> py ''Phishing campaign targets bank'']"

definition ransomware_source :: source where
  "ransomware_source = [''name'' \<mapsto> py ''N'', ''url'' \<mapsto> py ''g'',
                        ''filter_keyword'' \<mapsto> py ''ransomware'']"

definition down_source :: source where
  "down_source = [''name'' \<mapsto> py ''D'', ''url'' \<mapsto> py ''d'']"

definition odd_source :: source where
  "odd_source = [''name'' \<mapsto> py ''O'', ''url'' \<mapsto> py ''o'', ''type'' \<mapsto> py ''odd'']"

definition news_env :: env where
  "news_env =
     \<lparr> load_sources = Inr [down_source, odd_source, ransomware_source],
       http_fetch = (\<lambda>k u. if u = py ''d'' then Inl Timeout else Inr []),
       feedparser_parse = (\<lambda>raw. \<lparr> bozo = False, entries = [ransomware_entry, phishing_entry] \<rparr>),
       dateutil_parse = (\<lambda>s. if s = py ''2024-01-01T00:00:00'' then Some new_year else None),
       str_lower = ascii_lower,
       clock = (\<lambda>k j. epoch) \<rparr>"

definition ransomware_item :: item where
  "ransomware_item = news_item (py ''Ransomware attack hits hospital'') (py ''r'') []
     (py ''2024-01-01T00:00:00+00:00'') (py ''N'') [] (py ''1970-01-01T00:00:00+00:00'')"

text \<open>
  Descriptors without a \<open>name\<close>, one of each kind, and the environment of the example
  with another source list.
\<close>

definition nameless_scraper :: source where
  "nameless_scraper = [''type'' \<mapsto> py ''scraper'', ''url'' \<mapsto> py ''x'',
                       ''scraper_module'' \<mapsto> py ''m'']"

definition nameless_unknown :: source where
  "nameless_unknown = [''type'' \<mapsto> py ''odd'', ''url'' \<mapsto> py ''x'']"

definition nameless_rss :: source where
  "nameless_rss = [''url'' \<mapsto> py ''x'']"

definition with_sources :: "source list \<Rightarrow> env" where
  "with_sources srcs = news_env\<lparr> load_sources := Inr srcs \<rparr>"

definition split_entry :: entry where
  "split_entry = [''link'' \<mapsto> py ''l'', ''title'' \<mapsto> py ''ab'', ''summary'' \<mapsto> py ''cd'']"

definition split_source :: source where
  "split_source = [''name'' \<mapsto> py ''N'', ''url'' \<mapsto> py ''g'', ''filter_keyword'' \<mapsto> py ''bc'']"

definition split_env :: env where
  "split_env =
     \<lparr> load_sources = Inr [split_source],
       http_fetch = (\<lambda>k u. Inr []),
       feedparser_parse = (\<lambda>raw. \<lparr> bozo = False, entries = [split_entry] \<rparr>),
       dateutil_parse = (\<lambda>s. None),
       str_lower = ascii_lower,
       clock = (\<lambda>k j. epoch) \<rparr>"



definition first_item :: item where
  "first_item = news_item (py ''T1'') (py ''u'') (py ''a'') (py ''2024-01-01'') (py ''S'')
                  (py ''c'') (py ''f1'')"

definition second_item :: item where
  "second_item = news_item (py ''T2'') (py ''u'') (py ''b'') (py ''2024-01-02'') (py ''S'')
                   (py ''c'') (py ''f2'')"

text \<open>An item for the same url whose summary is a lone surrogate.\<close>

definition surrogate_item :: item where
  "surrogate_item = news_item (py ''T2'') (py ''u'') [55296] (py ''2024-01-02'') (py ''S'')
                      (py ''c'') (py ''f2'')"

definition first_row :: row where
  "first_row = \<lparr> title = py ''T1'', url = py ''u'', summary = Text (py ''a''),
                  published_at = Text (py ''2024-01-01''), source_name = py ''S'',
                  category = py ''c'', fetched_at = py ''f1'' \<rparr>"


section \<open>Properties of the feed parser\<close>

lemma tag_end_Some_iff:
  "tag_end cs = Some rest \<longleftrightarrow> (\<exists>body. cs = body @ 62 # rest \<and> body \<noteq> [] \<and> 62 \<notin> set body)"
proof
  assume a: "tag_end cs = Some rest"
  let ?P = "\<lambda>c::nat. c \<noteq> 62"
  from a obtain g where d: "dropWhile ?P cs = g # rest" and b: "takeWhile ?P cs \<noteq> []"
    by (auto simp: tag_end_def split: list.splits if_splits)
  from d have "dropWhile ?P cs \<noteq> []" by simp
  then have "\<not> ?P (hd (dropWhile ?P cs))" by (rule hd_dropWhile)
  with d have g: "g = 62" by simp
  have "cs = takeWhile ?P cs @ dropWhile ?P cs" by simp
  with d g have "cs = takeWhile ?P cs @ 62 # rest" by simp
  moreover have "62 \<notin> set (takeWhile ?P cs)" by (auto dest: set_takeWhileD)
  ultimately show "\<exists>body. cs = body @ 62 # rest \<and> body \<noteq> [] \<and> 62 \<notin> set body"
    using b by blast
next
  assume "\<exists>body. cs = body @ 62 # rest \<and> body \<noteq> [] \<and> 62 \<notin> set body"
  then obtain body where cs: "cs = body @ 62 # rest" and ne: "body \<noteq> []" and no: "62 \<notin> set body"
    by blast
  from no have all: "\<And>x. x \<in> set body \<Longrightarrow> x \<noteq> 62" by blast
  have "dropWhile (\<lambda>c. c \<noteq> 62) cs = 62 # rest"
    unfolding cs using all by (simp add: dropWhile_append2)
  moreover have "takeWhile (\<lambda>c. c \<noteq> 62) cs = body"
    unfolding cs using all by (simp add: takeWhile_append2)
  ultimately show "tag_end cs = Some rest" using ne by (simp add: tag_end_def)
qed

lemma tag_end_None_iff:
  "tag_end cs = None \<longleftrightarrow> 62 \<notin> set cs \<or> (\<exists>cs'. cs = 62 # cs')"
proof -
  let ?P = "\<lambda>c::nat. c \<noteq> 62"
  have a: "tag_end cs = None \<longleftrightarrow> dropWhile ?P cs = [] \<or> takeWhile ?P cs = []"
    by (simp add: tag_end_def split: list.split del: dropWhile_eq_Nil_conv)
  have b: "dropWhile ?P cs = [] \<longleftrightarrow> 62 \<notin> set cs"
    by (auto simp: dropWhile_eq_Nil_conv)
  have c: "takeWhile ?P cs = [] \<longleftrightarrow> cs = [] \<or> (\<exists>cs'. cs = 62 # cs')"
    by (cases cs) auto
  show ?thesis unfolding a b c by auto
qed

lemma has_tag_iff:
  "has_tag s \<longleftrightarrow> (\<exists>pre body post. s = pre @ 60 # body @ 62 # post \<and> body \<noteq> [] \<and> 62 \<notin> set body)"
proof (induction s)
  case Nil
  show ?case by simp
next
  case (Cons c cs)
  show ?case
  proof
    assume "has_tag (c # cs)"
    then consider "c = 60" "tag_end cs \<noteq> None" | "has_tag cs" by auto
    then show "\<exists>pre body post. c # cs = pre @ 60 # body @ 62 # post \<and> body \<noteq> [] \<and> 62 \<notin> set body"
    proof cases
      case 1
      then obtain rest where "tag_end cs = Some rest" by blast
      then obtain body where "cs = body @ 62 # rest" "body \<noteq> []" "62 \<notin> set body"
        unfolding tag_end_Some_iff by blast
      with 1 have "c # cs = [] @ 60 # body @ 62 # rest \<and> body \<noteq> [] \<and> 62 \<notin> set body" by simp
      then show ?thesis by blast
    next
      case 2
      with Cons.IH obtain pre body post where
        "cs = pre @ 60 # body @ 62 # post" "body \<noteq> []" "62 \<notin> set body" by blast
      then have "c # cs = (c # pre) @ 60 # body @ 62 # post \<and> body \<noteq> [] \<and> 62 \<notin> set body" by simp
      then show ?thesis by blast
    qed
  next
    assume "\<exists>pre body post. c # cs = pre @ 60 # body @ 62 # post \<and> body \<noteq> [] \<and> 62 \<notin> set body"
    then obtain pre body post where eq: "c # cs = pre @ 60 # body @ 62 # post"
      and b: "body \<noteq> []" "62 \<notin> set body" by blast
    show "has_tag (c # cs)"
    proof (cases pre)
      case Nil
      with eq have "c = 60" "cs = body @ 62 # post" by simp_all
      with b have "tag_end cs = Some post" unfolding tag_end_Some_iff by blast
      with \<open>c = 60\<close> show ?thesis by simp
    next
      case (Cons p pre')
      with eq have "cs = pre' @ 60 # body @ 62 # post" by simp
      with b Cons.IH have "has_tag cs" by blast
      then show ?thesis by simp
    qed
  qed
qed

lemma set_strip_tags: "set (strip_tags s) \<subseteq> set s"
proof (induction s rule: strip_tags.induct)
  case 1
  show ?case by simp
next
  case (2 c cs)
  show ?case
  proof (cases "c = 60")
    case False
    with 2 show ?thesis by auto
  next
    case True
    show ?thesis
    proof (cases "tag_end cs")
      case None
      with True 2 show ?thesis by auto
    next
      case (Some rest)
      then have "set rest \<subseteq> set cs" unfolding tag_end_Some_iff by auto
      with True Some 2 show ?thesis by auto
    qed
  qed
qed

lemma tag_end_strip_tags_None:
  assumes "tag_end cs = None"
  shows "tag_end (strip_tags cs) = None"
proof -
  from assms consider "62 \<notin> set cs" | cs' where "cs = 62 # cs'"
    unfolding tag_end_None_iff by blast
  then show ?thesis
  proof cases
    case 1
    with set_strip_tags[of cs] have "62 \<notin> set (strip_tags cs)" by blast
    then show ?thesis unfolding tag_end_None_iff by blast
  next
    case 2
    then have "strip_tags cs = 62 # strip_tags cs'" by simp
    then show ?thesis unfolding tag_end_None_iff by blast
  qed
qed

lemma strip_tags_clean: "\<not> has_tag (strip_tags s)"
proof (induction s rule: strip_tags.induct)
  case 1
  show ?case by simp
next
  case (2 c cs)
  show ?case
  proof (cases "c = 60")
    case False
    with 2 show ?thesis by simp
  next
    case True
    show ?thesis
    proof (cases "tag_end cs")
      case None
      with True 2 tag_end_strip_tags_None[OF None] show ?thesis by simp
    next
      case (Some rest)
      with True 2 show ?thesis by simp
    qed
  qed
qed

lemma has_tag_sublist: "sublist a b \<Longrightarrow> has_tag a \<Longrightarrow> has_tag b"
proof -
  assume "sublist a b" and "has_tag a"
  then obtain ps ss pre body post where "b = ps @ a @ ss"
    and "a = pre @ 60 # body @ 62 # post" and b: "body \<noteq> []" "62 \<notin> set body"
    unfolding has_tag_iff sublist_def by blast
  then have "b = (ps @ pre) @ 60 # body @ 62 # (post @ ss)" by simp
  with b show "has_tag b" unfolding has_tag_iff by blast
qed

lemma sublist_strip: "sublist (strip s) s"
proof -
  let ?y = "dropWhile isspace s"
  let ?r = "rev ?y"
  have "rev (takeWhile isspace ?r @ dropWhile isspace ?r) =
          rev (dropWhile isspace ?r) @ rev (takeWhile isspace ?r)"
    by (rule rev_append)
  then have "rev ?r = strip s @ rev (takeWhile isspace ?r)"
    by (simp only: takeWhile_dropWhile_id strip_def)
  then have y: "?y = strip s @ rev (takeWhile isspace ?r)" by (simp only: rev_rev_ident)
  have "s = takeWhile isspace s @ ?y" by simp
  with y have "s = takeWhile isspace s @ strip s @ rev (takeWhile isspace ?r)"
    by (simp only:)
  then show ?thesis unfolding sublist_def by blast
qed

lemma tag_end_snoc:
  assumes "c \<noteq> 62" and "tag_end (u @ [c]) \<noteq> None"
  shows "tag_end u \<noteq> None"
proof
  assume "tag_end u = None"
  then consider "62 \<notin> set u" | u' where "u = 62 # u'" unfolding tag_end_None_iff by blast
  then have "tag_end (u @ [c]) = None"
  proof cases
    case 1
    with assms(1) have "62 \<notin> set (u @ [c])" by simp
    then show ?thesis unfolding tag_end_None_iff by blast
  next
    case 2
    then have "u @ [c] = 62 # (u' @ [c])" by simp
    then show ?thesis unfolding tag_end_None_iff by blast
  qed
  with assms(2) show False by simp
qed

lemma has_tag_snoc: "c \<noteq> 62 \<Longrightarrow> has_tag (u @ [c]) \<Longrightarrow> has_tag u"
proof (induction u)
  case Nil
  then show ?case by (simp add: tag_end_def)
next
  case (Cons a u)
  from Cons.prems(2) consider "a = 60" "tag_end (u @ [c]) \<noteq> None" | "has_tag (u @ [c])"
    by auto
  then show ?case
  proof cases
    case 1
    with tag_end_snoc[OF Cons.prems(1)] show ?thesis by simp
  next
    case 2
    with Cons show ?thesis by simp
  qed
qed

lemma strip_trimmed: "strip s = [] \<or> (\<not> isspace (hd (strip s)) \<and> \<not> isspace (last (strip s)))"
proof (cases "strip s = []")
  case True
  then show ?thesis by simp
next
  case False
  let ?y = "dropWhile isspace s"
  let ?z = "dropWhile isspace (rev ?y)"
  from False have z: "?z \<noteq> []" by (simp add: strip_def)
  then have "\<not> isspace (hd ?z)" by (rule hd_dropWhile)
  with z have l: "\<not> isspace (last (strip s))" by (simp add: strip_def last_rev)
  have y: "?y \<noteq> []"
  proof
    assume "?y = []"
    then have "?z = dropWhile isspace (rev [])" by (simp only:)
    with z show False by simp
  qed
  then have hy: "\<not> isspace (hd ?y)" by (rule hd_dropWhile)
  have "rev ?y = takeWhile isspace (rev ?y) @ ?z" by simp
  with z have "last (rev ?y) = last ?z" by (metis last_appendR)
  with y have "hd ?y = last ?z" by (simp add: last_rev)
  with hy z have "\<not> isspace (hd (strip s))" by (simp add: strip_def hd_rev)
  with l show ?thesis by simp
qed

lemma news_item_fields:
  "news_item t u s p n c f ''title'' = Some (Text t)"
  "news_item t u s p n c f ''url'' = Some (Text u)"
  "news_item t u s p n c f ''summary'' = Some (Text s)"
  "news_item t u s p n c f ''published_at'' = Some (Text p)"
  "news_item t u s p n c f ''source_name'' = Some (Text n)"
  "news_item t u s p n c f ''category'' = Some (Text c)"
  "news_item t u s p n c f ''fetched_at'' = Some (Text f)"
  by (simp_all add: news_item_def)

lemma normalize_entry_Some:
  assumes "normalize_entry env reading name cat fetched kw e = Some it"
  shows "it = news_item (entry_title e) (entry_url e) (entry_summary e)
                (entry_published_at env reading e) name cat fetched"
  using assms by (simp add: normalize_entry_def split: if_splits)

lemma summary_or_chain:
  "or_empty (py_or (py_or a b) (Some [])) =
     (case a of Some s \<Rightarrow> if s \<noteq> [] then s else or_empty b | None \<Rightarrow> or_empty b)"
  by (cases a; cases b) (auto simp: py_or_def)

lemma truthy_or_empty: "truthy x \<longleftrightarrow> or_empty x \<noteq> []"
  by (cases x) simp_all

lemma clean_summary_eq:
  "clean_summary x 300 =
     (let t = strip (strip_tags (or_empty x))
      in if length t \<le> 300 then t else take 300 t @ ellipsis)"
proof (cases "truthy x")
  case True
  then show ?thesis by (simp add: clean_summary_def Let_def)
next
  case False
  then have "or_empty x = []" by (simp add: truthy_or_empty)
  with False show ?thesis by (simp add: clean_summary_def strip_def)
qed

text \<open>
  C7. The emitted summary is the entry's \<open>summary\<close> (its \<open>description\<close> when the summary
  is absent or empty) with the tags removed by the pattern and the surrounding whitespace
  trimmed, cut to 300 characters with the ellipsis appended only when it was longer. No
  match of the tag pattern is left in it, the trimmed text does not begin or end with
  whitespace, and an entry with neither field gets the empty summary.
\<close>

theorem summary_is_cleaned:
  assumes raw: "raw = (case e ''summary'' of
                         Some s \<Rightarrow> if s \<noteq> [] then s else or_empty (e ''description'')
                       | None \<Rightarrow> or_empty (e ''description''))"
    and t: "t = strip (strip_tags raw)"
  shows "entry_summary e = (if length t \<le> 300 then t else take 300 t @ ellipsis) \<and>
         \<not> (\<exists>pre body post. t = pre @ 60 # body @ 62 # post \<and> body \<noteq> [] \<and> 62 \<notin> set body) \<and>
         \<not> (\<exists>pre body post. entry_summary e = pre @ 60 # body @ 62 # post \<and> body \<noteq> []
               \<and> 62 \<notin> set body) \<and>
         (t = [] \<or> (\<not> isspace (hd t) \<and> \<not> isspace (last t))) \<and>
         (\<not> truthy (e ''summary'') \<and> \<not> truthy (e ''description'') \<longrightarrow> entry_summary e = []) \<and>
         (\<forall>env reading name cat fetched kw it.
            normalize_entry env reading name cat fetched kw e = Some it \<longrightarrow>
            it ''summary'' = Some (Text (entry_summary e)))"
proof -
  have raw': "or_empty (py_or (py_or (e ''summary'') (e ''description'')) (Some [])) = raw"
    unfolding raw by (rule summary_or_chain)
  have eq: "entry_summary e = (if length t \<le> 300 then t else take 300 t @ ellipsis)"
    by (simp add: entry_summary_def clean_summary_eq raw' t Let_def)
  have clean: "\<not> has_tag t"
    unfolding t using has_tag_sublist[OF sublist_strip] strip_tags_clean by blast
  have "\<not> has_tag (take 300 t)"
  proof
    assume "has_tag (take 300 t)"
    moreover have "sublist (take 300 t) t" by (metis append_take_drop_id sublist_appendI append_Nil)
    ultimately have "has_tag t" using has_tag_sublist by blast
    with clean show False by simp
  qed
  then have "\<not> has_tag (take 300 t @ [8230])" using has_tag_snoc[of 8230 "take 300 t"] by auto
  with clean eq have clean': "\<not> has_tag (entry_summary e)" by (simp add: ellipsis_def)
  have trimmed: "t = [] \<or> (\<not> isspace (hd t) \<and> \<not> isspace (last t))"
    unfolding t by (rule strip_trimmed)
  have neither: "\<not> truthy (e ''summary'') \<and> \<not> truthy (e ''description'') \<longrightarrow> entry_summary e = []"
    by (simp add: entry_summary_def py_or_def clean_summary_def)
  have emitted: "\<forall>env reading name cat fetched kw it.
            normalize_entry env reading name cat fetched kw e = Some it \<longrightarrow>
            it ''summary'' = Some (Text (entry_summary e))"
    by (auto dest!: normalize_entry_Some simp: news_item_fields)
  from eq clean clean' trimmed neither emitted show ?thesis
    unfolding has_tag_iff by blast
qed

lemma summary_entry_raw:
  "py '' <p>Hi</p> '' = (case summary_entry ''summary'' of
                         Some s \<Rightarrow> if s \<noteq> [] then s else or_empty (summary_entry ''description'')
                       | None \<Rightarrow> or_empty (summary_entry ''description''))"
  by (simp add: summary_entry_def py_def)

lemma summary_entry_t: "py ''Hi'' = strip (strip_tags (py '' <p>Hi</p> ''))"
  by (simp add: py_def tag_end_def strip_def isspace_def)

theorem summary_is_cleaned_witness:
  "py ''Hi'' = strip (strip_tags (py '' <p>Hi</p> '')) \<and>
   entry_summary summary_entry = py ''Hi''"
proof -
  have "length (py ''Hi'') \<le> 300" by (simp add: py_def)
  with summary_is_cleaned[OF summary_entry_raw summary_entry_t] summary_entry_t
  show ?thesis by simp
qed

lemma isoformat_nonempty: "isoformat dt \<noteq> []"
  by (simp add: isoformat_def py_def)

lemma isoformat_new_year:
  "isoformat (new_year\<lparr> tzinfo := Some 0 \<rparr>) = py ''2024-01-01T00:00:00+00:00''"
  by (simp add: isoformat_def new_year_def zero_pad_def format_offset_def py_def)

lemma isoformat_epoch:
  "isoformat (now_utc epoch) = py ''1970-01-01T00:00:00+00:00''"
  by (simp add: isoformat_def epoch_def now_utc_def zero_pad_def format_offset_def py_def)

lemma date_or_chain:
  "py_or (py_or a b) c =
     (if truthy a then a else if truthy b then b else c)"
  by (simp add: py_or_def)

text \<open>
  C4. \<open>published_at\<close> comes from the first of \<open>published\<close>, \<open>updated\<close>, \<open>created\<close> that is
  present and not empty; a parsed value without a timezone is taken as UTC; when none of the
  three is there, or the chosen one does not parse, it is the clock's UTC reading. It is a
  text and never empty. With \<open>published\<close> empty and \<open>updated\<close> parsed as the naive
  2024-01-01 00:00:00 it is \<open>2024-01-01T00:00:00+00:00\<close>.
\<close>

theorem published_at_fallback:
  assumes chain: "raw = (if truthy (e ''published'') then e ''published''
                         else if truthy (e ''updated'') then e ''updated''
                         else if truthy (e ''created'') then e ''created'' else None)"
  shows "entry_published_at env reading e =
           (case raw of
              None \<Rightarrow> isoformat (now_utc reading)
            | Some r \<Rightarrow>
                (case dateutil_parse env r of
                   None \<Rightarrow> isoformat (now_utc reading)
                 | Some dt \<Rightarrow>
                     (case tzinfo dt of
                        None \<Rightarrow> isoformat (dt\<lparr> tzinfo := Some 0 \<rparr>)
                      | Some off \<Rightarrow> isoformat dt))) \<and>
         tzinfo (now_utc reading) = Some 0 \<and>
         entry_published_at env reading e \<noteq> [] \<and>
         (\<forall>name cat fetched kw it.
            normalize_entry env reading name cat fetched kw e = Some it \<longrightarrow>
            it ''published_at'' = Some (Text (entry_published_at env reading e))) \<and>
         (\<not> truthy (e ''published'') \<and> e ''updated'' = Some (py ''2024-01-01T00:00:00'') \<and>
          dateutil_parse env (py ''2024-01-01T00:00:00'') =
            Some \<lparr> year = 2024, month = 1, day = 1, hour = 0, minute = 0, second = 0,
                   microsecond = 0, tzinfo = None \<rparr>
          \<longrightarrow> entry_published_at env reading e = py ''2024-01-01T00:00:00+00:00'')"
proof -
  let ?x = "py_or (py_or (e ''published'') (e ''updated'')) (e ''created'')"
  have x: "?x = (if truthy (e ''published'') then e ''published''
                 else if truthy (e ''updated'') then e ''updated'' else e ''created'')"
    by (rule date_or_chain)
  have shape: "entry_published_at env reading e =
           (case raw of
              None \<Rightarrow> isoformat (now_utc reading)
            | Some r \<Rightarrow>
                (case dateutil_parse env r of
                   None \<Rightarrow> isoformat (now_utc reading)
                 | Some dt \<Rightarrow>
                     (case tzinfo dt of
                        None \<Rightarrow> isoformat (dt\<lparr> tzinfo := Some 0 \<rparr>)
                      | Some off \<Rightarrow> isoformat dt)))"
  proof (cases "truthy ?x")
    case True
    then have "raw = ?x" unfolding chain x by (simp split: if_splits)
    moreover from True obtain r where "?x = Some r" by (cases ?x) simp_all
    ultimately show ?thesis using True
      by (simp add: entry_published_at_def normalize_date_def split: option.splits)
  next
    case False
    then have "raw = None" unfolding chain x by (simp split: if_splits)
    with False show ?thesis by (simp add: entry_published_at_def normalize_date_def)
  qed
  have utc: "tzinfo (now_utc reading) = Some 0" by (simp add: now_utc_def)
  have ne: "entry_published_at env reading e \<noteq> []"
    by (simp add: entry_published_at_def normalize_date_def isoformat_nonempty
          split: option.splits)
  have emitted: "\<forall>name cat fetched kw it.
            normalize_entry env reading name cat fetched kw e = Some it \<longrightarrow>
            it ''published_at'' = Some (Text (entry_published_at env reading e))"
    by (auto dest!: normalize_entry_Some simp: news_item_fields)
  have example: "\<not> truthy (e ''published'') \<and> e ''updated'' = Some (py ''2024-01-01T00:00:00'') \<and>
          dateutil_parse env (py ''2024-01-01T00:00:00'') =
            Some \<lparr> year = 2024, month = 1, day = 1, hour = 0, minute = 0, second = 0,
                   microsecond = 0, tzinfo = None \<rparr>
          \<longrightarrow> entry_published_at env reading e = py ''2024-01-01T00:00:00+00:00''"
  proof (intro impI, elim conjE)
    assume a: "\<not> truthy (e ''published'')" and b: "e ''updated'' = Some (py ''2024-01-01T00:00:00'')"
      and c: "dateutil_parse env (py ''2024-01-01T00:00:00'') =
            Some \<lparr> year = 2024, month = 1, day = 1, hour = 0, minute = 0, second = 0,
                   microsecond = 0, tzinfo = None \<rparr>"
    have t: "truthy (Some (py ''2024-01-01T00:00:00''))" by (simp add: py_def)
    from a b t have "?x = Some (py ''2024-01-01T00:00:00'')" by (simp add: py_or_def)
    with t c show "entry_published_at env reading e = py ''2024-01-01T00:00:00+00:00''"
      using isoformat_new_year
      by (simp add: entry_published_at_def normalize_date_def new_year_def)
  qed
  from shape utc ne emitted example show ?thesis by blast
qed

theorem published_at_fallback_witness:
  "None = (if truthy (phishing_entry ''published'') then phishing_entry ''published''
           else if truthy (phishing_entry ''updated'') then phishing_entry ''updated''
           else if truthy (phishing_entry ''created'') then phishing_entry ''created'' else None) \<and>
   entry_published_at news_env epoch phishing_entry = py ''1970-01-01T00:00:00+00:00'' \<and>
   \<not> truthy (ransomware_entry ''published'') \<and>
   ransomware_entry ''updated'' = Some (py ''2024-01-01T00:00:00'') \<and>
   dateutil_parse news_env (py ''2024-01-01T00:00:00'') =
      Some \<lparr> year = 2024, month = 1, day = 1, hour = 0, minute = 0, second = 0,
             microsecond = 0, tzinfo = None \<rparr> \<and>
   entry_published_at news_env epoch ransomware_entry = py ''2024-01-01T00:00:00+00:00''"
proof -
  have a: "None = (if truthy (phishing_entry ''published'') then phishing_entry ''published''
           else if truthy (phishing_entry ''updated'') then phishing_entry ''updated''
           else if truthy (phishing_entry ''created'') then phishing_entry ''created'' else None)"
    by (simp add: phishing_entry_def)
  have b: "\<not> truthy (ransomware_entry ''published'')"
    "ransomware_entry ''updated'' = Some (py ''2024-01-01T00:00:00'')"
    by (simp_all add: ransomware_entry_def)
  have c: "dateutil_parse news_env (py ''2024-01-01T00:00:00'') =
      Some \<lparr> year = 2024, month = 1, day = 1, hour = 0, minute = 0, second = 0,
             microsecond = 0, tzinfo = None \<rparr>"
    by (simp add: news_env_def new_year_def)
  from published_at_fallback[where e = phishing_entry and env = news_env and reading = epoch, OF a]
  have "entry_published_at news_env epoch phishing_entry = py ''1970-01-01T00:00:00+00:00''"
    by (simp add: isoformat_epoch)
  moreover from published_at_fallback[where e = ransomware_entry and env = news_env and reading = epoch, OF refl] b c
  have "entry_published_at news_env epoch ransomware_entry = py ''2024-01-01T00:00:00+00:00''"
    by blast
  ultimately show ?thesis using a b c by blast
qed

lemma py_in_sublist: "py_in needle hay \<longleftrightarrow> sublist needle hay"
  by (induction hay) (simp_all add: sublist_Cons_right)

lemma normalize_entry_None:
  "normalize_entry env reading name cat fetched fk e = None \<longleftrightarrow>
     \<not> (entry_url e \<noteq> [] \<and>
        (fk = [] \<or> sublist fk (str_lower env (entry_title e @ py '' '' @ entry_summary e))))"
  by (auto simp: normalize_entry_def py_in_sublist)

lemma shown_normalize_entry:
  "normalize_entry env reading name cat fetched fk e = Some it \<Longrightarrow> shown it = expected e"
  by (auto dest!: normalize_entry_Some simp: shown_def expected_def news_item_fields)

lemma entries_loop_filter:
  "map shown (entries_loop env k name cat fetched fk j es) =
     map expected
       (filter (\<lambda>e. entry_url e \<noteq> [] \<and>
          (fk = [] \<or> sublist fk (str_lower env (entry_title e @ py '' '' @ entry_summary e)))) es)"
proof (induction es arbitrary: j)
  case Nil
  show ?case by simp
next
  case (Cons e es)
  show ?case
  proof (cases "normalize_entry env (clock env k (Suc j)) name cat fetched fk e")
    case None
    then have "\<not> (entry_url e \<noteq> [] \<and>
        (fk = [] \<or> sublist fk (str_lower env (entry_title e @ py '' '' @ entry_summary e))))"
      unfolding normalize_entry_None .
    with None Cons.IH[of "Suc j"] show ?thesis by simp
  next
    case (Some it)
    have keep: "entry_url e \<noteq> [] \<and>
        (fk = [] \<or> sublist fk (str_lower env (entry_title e @ py '' '' @ entry_summary e)))"
    proof (rule ccontr)
      assume "\<not> (entry_url e \<noteq> [] \<and>
        (fk = [] \<or> sublist fk (str_lower env (entry_title e @ py '' '' @ entry_summary e))))"
      then have "normalize_entry env (clock env k (Suc j)) name cat fetched fk e = None"
        unfolding normalize_entry_None .
      with Some show False by simp
    qed
    from Some have "shown it = expected e" by (rule shown_normalize_entry)
    with Some keep Cons.IH[of "Suc j"] show ?thesis by simp
  qed
qed

lemma fetch_rss_entries:
  assumes "src ''url'' = Some u" and "src ''name'' = Some name"
    and "http_fetch env k u = Inr raw"
    and "feedparser_parse env raw = fd" and "\<not> (bozo fd \<and> entries fd = [])"
  shows "fetch_rss env k src =
           Inr (entries_loop env k name (case src ''category'' of None \<Rightarrow> [] | Some c \<Rightarrow> c)
                  (isoformat (now_utc (clock env k 0)))
                  (str_lower env (case src ''filter_keyword'' of None \<Rightarrow> [] | Some w \<Rightarrow> w))
                  0 (entries fd))"
  using assms by (auto simp: fetch_rss_def Let_def)

text \<open>
  C5, as amended. For a source whose request and parse succeed, the emitted items are, in
  order, those of the entries that have a url and, when the source has a non-empty keyword,
  whose lower-cased title, one space and cleaned summary, joined, contain the lower-cased
  keyword. Each entry is decided alone; a source without keyword drops no entry that has a
  url. \<open>str.lower\<close> is assumed to map only the empty string to the empty string.
\<close>

theorem keyword_filter_per_entry:
  assumes lower: "\<forall>s. (str_lower env s = []) = (s = [])"
    and src: "src ''url'' = Some u" "src ''name'' = Some name"
    and fetch: "http_fetch env k u = Inr raw"
    and parsed: "feedparser_parse env raw = fd" "\<not> (bozo fd \<and> entries fd = [])"
    and kw: "kw = (case src ''filter_keyword'' of None \<Rightarrow> [] | Some w \<Rightarrow> w)"
  shows "\<exists>items. fetch_rss env k src = Inr items \<and>
           map shown items = map expected (filter (survives env kw) (entries fd))"
proof -
  let ?fk = "str_lower env kw"
  from lower have fk: "?fk = [] \<longleftrightarrow> kw = []" by simp
  have "survives env kw = (\<lambda>e. entry_url e \<noteq> [] \<and>
          (?fk = [] \<or> sublist ?fk (str_lower env (entry_title e @ py '' '' @ entry_summary e))))"
    by (simp add: survives_def fun_eq_iff fk)
  then have "map expected (filter (survives env kw) (entries fd)) =
      map shown (entries_loop env k name (case src ''category'' of None \<Rightarrow> [] | Some c \<Rightarrow> c)
                  (isoformat (now_utc (clock env k 0))) ?fk 0 (entries fd))"
    by (simp only: entries_loop_filter)
  with fetch_rss_entries[OF src fetch parsed] kw show ?thesis by simp
qed

lemma ascii_lower_empty: "\<forall>s. (str_lower news_env s = []) = (s = [])"
  by (simp add: news_env_def ascii_lower_def)

lemma split_fetch: "fetch_rss split_env 0 split_source = Inr []"
  by (simp add: fetch_rss_def split_env_def split_source_def split_entry_def Let_def
      normalize_entry_def entry_url_def entry_title_def entry_summary_def clean_summary_def
      py_or_def strip_def isspace_def tag_end_def ascii_lower_def py_def)

text \<open>
  C5, as stated, fails: with the keyword \<open>bc\<close>, the title \<open>ab\<close> and the summary \<open>cd\<close> the
  keyword occurs in the concatenation of title and summary, and the entry is dropped,
  because the text that is searched has a space between the two.
\<close>

theorem keyword_across_title_and_summary:
  "split_source ''filter_keyword'' = Some (py ''bc'') \<and>
   entry_title split_entry = py ''ab'' \<and> entry_summary split_entry = py ''cd'' \<and>
   sublist (str_lower split_env (py ''bc''))
     (str_lower split_env (entry_title split_entry @ entry_summary split_entry)) \<and>
   feedparser_parse split_env [] = \<lparr> bozo = False, entries = [split_entry] \<rparr> \<and>
   fetch_rss split_env 0 split_source = Inr []"
proof -
  have t: "entry_title split_entry = py ''ab''"
    by (simp add: entry_title_def split_entry_def strip_def isspace_def py_def)
  have s: "entry_summary split_entry = py ''cd''"
    by (simp add: entry_summary_def split_entry_def clean_summary_def py_or_def strip_def
        isspace_def tag_end_def py_def)
  have "py_in (str_lower split_env (py ''bc''))
     (str_lower split_env (py ''ab'' @ py ''cd''))"
    by (simp add: split_env_def ascii_lower_def py_def)
  then have "sublist (str_lower split_env (py ''bc''))
     (str_lower split_env (entry_title split_entry @ entry_summary split_entry))"
    by (simp only: py_in_sublist t s)
  moreover have "split_source ''filter_keyword'' = Some (py ''bc'')"
    by (simp add: split_source_def)
  moreover have "feedparser_parse split_env [] = \<lparr> bozo = False, entries = [split_entry] \<rparr>"
    by (simp add: split_env_def)
  ultimately show ?thesis using t s split_fetch by blast
qed

lemma ransomware_title: "entry_title ransomware_entry = py ''Ransomware attack hits hospital''"
  by (simp add: entry_title_def ransomware_entry_def strip_def isspace_def py_def)

lemma phishing_title: "entry_title phishing_entry = py ''Phishing campaign targets bank''"
  by (simp add: entry_title_def phishing_entry_def strip_def isspace_def py_def)

lemma no_summary: "entry_summary ransomware_entry = []" "entry_summary phishing_entry = []"
  by (simp_all add: entry_summary_def ransomware_entry_def phishing_entry_def py_or_def
      clean_summary_def)

lemma entry_urls: "entry_url ransomware_entry = py ''r''" "entry_url phishing_entry = py ''p''"
  by (simp_all add: entry_url_def ransomware_entry_def phishing_entry_def py_or_def py_def)

lemma lower_news_env: "str_lower news_env = ascii_lower"
  by (simp add: news_env_def)

lemma ransomware_py_in:
  "py_in (ascii_lower (py ''ransomware''))
     (ascii_lower (py ''Ransomware attack hits hospital'' @ py '' '' @ []))"
  by (simp add: ascii_lower_def py_def)

lemma phishing_py_in:
  "\<not> py_in (ascii_lower (py ''ransomware''))
     (ascii_lower (py ''Phishing campaign targets bank'' @ py '' '' @ []))"
  by (simp add: ascii_lower_def py_def)

lemma keyword_nonempty: "py ''ransomware'' \<noteq> []" "ascii_lower (py ''ransomware'') \<noteq> []"
  by (simp_all add: py_def ascii_lower_def)

lemma urls_nonempty: "py ''r'' \<noteq> []" "py ''p'' \<noteq> []"
  by (simp_all add: py_def)

lemma ransomware_survives: "survives news_env (py ''ransomware'') ransomware_entry"
  using ransomware_py_in
  by (simp only: survives_def py_in_sublist ransomware_title no_summary entry_urls
        lower_news_env) (simp add: py_def)

lemma phishing_dropped: "\<not> survives news_env (py ''ransomware'') phishing_entry"
  using phishing_py_in keyword_nonempty
  by (simp only: survives_def py_in_sublist phishing_title no_summary lower_news_env) simp

lemma ransomware_published:
  "entry_published_at news_env epoch ransomware_entry = py ''2024-01-01T00:00:00+00:00''"
proof -
  have "py_or (py_or (ransomware_entry ''published'') (ransomware_entry ''updated''))
          (ransomware_entry ''created'') = Some (py ''2024-01-01T00:00:00'')"
    by (simp add: ransomware_entry_def py_or_def py_def)
  moreover have "dateutil_parse news_env (py ''2024-01-01T00:00:00'') = Some new_year"
    by (simp add: news_env_def)
  moreover have "py ''2024-01-01T00:00:00'' \<noteq> []" by (simp add: py_def)
  moreover have "tzinfo new_year = None" by (simp add: new_year_def)
  ultimately show ?thesis
    by (simp add: entry_published_at_def normalize_date_def isoformat_new_year)
qed

theorem keyword_filter_per_entry_witness:
  "ransomware_source ''url'' = Some (py ''g'') \<and>
   ransomware_source ''name'' = Some (py ''N'') \<and>
   http_fetch news_env 2 (py ''g'') = Inr [] \<and>
   feedparser_parse news_env [] = \<lparr> bozo = False, entries = [ransomware_entry, phishing_entry] \<rparr> \<and>
   survives news_env (py ''ransomware'') ransomware_entry \<and>
   \<not> survives news_env (py ''ransomware'') phishing_entry \<and>
   (\<exists>items. fetch_rss news_env 2 ransomware_source = Inr items \<and>
      map shown items = [expected ransomware_entry])"
proof -
  let ?fd = "\<lparr> bozo = False, entries = [ransomware_entry, phishing_entry] \<rparr>"
  have a: "ransomware_source ''url'' = Some (py ''g'')"
    "ransomware_source ''name'' = Some (py ''N'')"
    by (simp_all add: ransomware_source_def)
  have b: "http_fetch news_env 2 (py ''g'') = Inr []" by (simp add: news_env_def py_def)
  have c: "feedparser_parse news_env [] = ?fd" by (simp add: news_env_def)
  have d: "\<not> (bozo ?fd \<and> entries ?fd = [])" by simp
  have e: "py ''ransomware'' =
             (case ransomware_source ''filter_keyword'' of None \<Rightarrow> [] | Some w \<Rightarrow> w)"
    by (simp add: ransomware_source_def)
  from keyword_filter_per_entry[OF ascii_lower_empty a b c d e]
  have "\<exists>items. fetch_rss news_env 2 ransomware_source = Inr items \<and>
      map shown items = [expected ransomware_entry]"
    by (simp add: ransomware_survives phishing_dropped)
  with a b c ransomware_survives phishing_dropped show ?thesis by blast
qed

lemma contribution_failed_fetch:
  "s ''url'' = Some u \<and> http_fetch env k u = Inl exc \<longrightarrow> contribution env k s = []"
  by (auto simp: contribution_def fetch_rss_def Let_def split: option.splits)

lemma contribution_malformed:
  "s ''url'' = Some u \<and> http_fetch env k u = Inr raw \<and> bozo (feedparser_parse env raw) \<and>
   entries (feedparser_parse env raw) = [] \<longrightarrow> contribution env k s = []"
  by (auto simp: contribution_def fetch_rss_def Let_def split: option.splits)

lemma contribution_not_rss: "source_type s \<noteq> py ''rss'' \<longrightarrow> contribution env k s = []"
  by (simp add: contribution_def)

lemma make_tasks_contributions:
  assumes "\<forall>s\<in>set srcs. source_type s \<noteq> py ''rss'' \<longrightarrow> s ''name'' \<noteq> None"
  shows "\<exists>tasks. make_tasks k srcs = Inr tasks \<and>
           extend_all (gather env tasks) =
             concat (map (\<lambda>(i, s). contribution env i s) (enumerate k srcs))"
  using assms
proof (induction srcs arbitrary: k)
  case Nil
  show ?case by (simp add: gather_def)
next
  case (Cons src srcs)
  from Cons.prems have rest: "\<forall>s\<in>set srcs. source_type s \<noteq> py ''rss'' \<longrightarrow> s ''name'' \<noteq> None"
    by simp
  from Cons.IH[OF rest, of "Suc k"] obtain tasks where
    t: "make_tasks (Suc k) srcs = Inr tasks"
    and g: "extend_all (gather env tasks) =
             concat (map (\<lambda>(i, s). contribution env i s) (enumerate (Suc k) srcs))"
    by blast
  show ?case
  proof (cases "source_type src = py ''rss''")
    case True
    have "extend_all (gather env ((k, src) # tasks)) =
            contribution env k src @ extend_all (gather env tasks)"
      by (cases "fetch_rss env k src") (simp_all add: gather_def contribution_def True)
    with True t g show ?thesis by simp
  next
    case False
    with Cons.prems obtain name where "src ''name'' = Some name" by auto
    with False t g show ?thesis by (simp add: contribution_def)
  qed
qed

text \<open>
  What the aggregate fetch does guarantee. For a loaded source list in which every source
  that is not of type \<open>rss\<close> carries a \<open>name\<close>, it returns the contributions of the sources,
  one after the other. A source whose request fails or whose body is malformed without
  entries contributes nothing, a source of another type contributes nothing, and every item
  a source contributes is in the result.
\<close>

lemma aggregate_of_named_sources:
  assumes loaded: "load_sources env = Inr srcs"
    and named: "\<forall>s\<in>set srcs. source_type s \<noteq> py ''rss'' \<longrightarrow> s ''name'' \<noteq> None"
  shows "fetch_all_feeds env =
           Inr (concat (map (\<lambda>(k, s). contribution env k s) (enumerate 0 srcs))) \<and>
         (\<forall>k s u exc. s ''url'' = Some u \<and> http_fetch env k u = Inl exc \<longrightarrow>
            contribution env k s = []) \<and>
         (\<forall>k s u raw. s ''url'' = Some u \<and> http_fetch env k u = Inr raw \<and>
            bozo (feedparser_parse env raw) \<and> entries (feedparser_parse env raw) = [] \<longrightarrow>
            contribution env k s = []) \<and>
         (\<forall>k s. source_type s \<noteq> py ''rss'' \<longrightarrow> contribution env k s = []) \<and>
         (\<forall>k it. k < length srcs \<and> it \<in> set (contribution env k (srcs ! k)) \<longrightarrow>
            (\<exists>items. fetch_all_feeds env = Inr items \<and> it \<in> set items))"
proof -
  from make_tasks_contributions[OF named, of 0 env] loaded
  have agg: "fetch_all_feeds env =
           Inr (concat (map (\<lambda>(k, s). contribution env k s) (enumerate 0 srcs)))"
    by (auto simp: fetch_all_feeds_def)
  have appear: "\<forall>k it. k < length srcs \<and> it \<in> set (contribution env k (srcs ! k)) \<longrightarrow>
            (\<exists>items. fetch_all_feeds env = Inr items \<and> it \<in> set items)"
  proof (intro allI impI, elim conjE)
    fix k it
    assume k: "k < length srcs" and it: "it \<in> set (contribution env k (srcs ! k))"
    from k have "(k, srcs ! k) \<in> set (enumerate 0 srcs)"
      by (auto simp: in_set_conv_nth nth_enumerate_eq intro!: exI[of _ k])
    with it have "it \<in> set (concat (map (\<lambda>(k, s). contribution env k s) (enumerate 0 srcs)))"
      by force
    with agg show "\<exists>items. fetch_all_feeds env = Inr items \<and> it \<in> set items" by blast
  qed
  from agg appear contribution_failed_fetch contribution_malformed contribution_not_rss
  show ?thesis by blast
qed

lemma ransomware_fetch: "fetch_rss news_env k ransomware_source = Inr [ransomware_item]"
proof -
  have a: "normalize_entry news_env epoch (py ''N'') [] (py ''1970-01-01T00:00:00+00:00'')
             (ascii_lower (py ''ransomware'')) ransomware_entry = Some ransomware_item"
    using ransomware_py_in
    by (simp add: normalize_entry_def ransomware_title no_summary entry_urls
          ransomware_item_def lower_news_env ransomware_published urls_nonempty)
  have b: "normalize_entry news_env epoch (py ''N'') [] (py ''1970-01-01T00:00:00+00:00'')
             (ascii_lower (py ''ransomware'')) phishing_entry = None"
    using phishing_py_in keyword_nonempty
    by (simp add: normalize_entry_def phishing_title no_summary entry_urls lower_news_env
          urls_nonempty)
  have c: "clock news_env = (\<lambda>k j. epoch)" "str_lower news_env = ascii_lower"
    "http_fetch news_env k (py ''g'') = Inr []"
    "feedparser_parse news_env [] = \<lparr> bozo = False, entries = [ransomware_entry, phishing_entry] \<rparr>"
    by (simp_all add: news_env_def py_def)
  show ?thesis
    by (simp add: fetch_rss_def ransomware_source_def Let_def c isoformat_epoch a b)
qed

lemma contribution_down: "contribution news_env k down_source = []"
  by (simp add: contribution_def source_type_def down_source_def fetch_rss_def news_env_def
        Let_def)

lemma contribution_odd: "contribution news_env k odd_source = []"
  by (simp add: contribution_def source_type_def odd_source_def py_def)

lemma contribution_ransomware: "contribution news_env k ransomware_source = [ransomware_item]"
  by (simp add: contribution_def ransomware_fetch) (simp add: source_type_def ransomware_source_def)

lemma news_sources_named:
  "\<forall>s\<in>set [down_source, odd_source, ransomware_source].
      source_type s \<noteq> py ''rss'' \<longrightarrow> s ''name'' \<noteq> None"
  by (simp add: down_source_def odd_source_def ransomware_source_def)

lemma aggregate_of_named_sources_example:
  "load_sources news_env = Inr [down_source, odd_source, ransomware_source] \<and>
   down_source ''url'' = Some (py ''d'') \<and> http_fetch news_env 0 (py ''d'') = Inl Timeout \<and>
   source_type odd_source = py ''odd'' \<and>
   fetch_all_feeds news_env = Inr [ransomware_item]"
proof -
  have a: "load_sources news_env = Inr [down_source, odd_source, ransomware_source]"
    by (simp add: news_env_def)
  have b: "down_source ''url'' = Some (py ''d'')" "http_fetch news_env 0 (py ''d'') = Inl Timeout"
    "source_type odd_source = py ''odd''"
    by (simp_all add: down_source_def news_env_def source_type_def odd_source_def)
  from aggregate_of_named_sources[OF a news_sources_named]
  have "fetch_all_feeds news_env =
          Inr (concat (map (\<lambda>(k, s). contribution news_env k s)
                 (enumerate 0 [down_source, odd_source, ransomware_source])))"
    by blast
  then have "fetch_all_feeds news_env = Inr [ransomware_item]"
    by (simp add: contribution_down contribution_odd contribution_ransomware)
  with a b show ?thesis by blast
qed

lemma entries_loop_load_sources:
  "entries_loop (env\<lparr> load_sources := x \<rparr>) k name cat fetched fk j es =
     entries_loop env k name cat fetched fk j es"
  by (induction es arbitrary: j)
     (simp_all add: normalize_entry_def entry_published_at_def normalize_date_def
        cong: option.case_cong)

lemma fetch_rss_load_sources:
  "fetch_rss (env\<lparr> load_sources := x \<rparr>) k src = fetch_rss env k src"
  by (simp add: fetch_rss_def entries_loop_load_sources Let_def
        cong: option.case_cong sum.case_cong if_cong)

lemma contribution_with_sources:
  "contribution (with_sources srcs) k ransomware_source = [ransomware_item]"
  by (simp add: contribution_def with_sources_def fetch_rss_load_sources ransomware_fetch)
     (simp add: source_type_def ransomware_source_def)

lemma make_tasks_nameless:
  "make_tasks 0 [ransomware_source, nameless_scraper] = Inl (KeyError ''name'')"
  "make_tasks 0 [ransomware_source, nameless_unknown] = Inl (KeyError ''name'')"
  "make_tasks 0 [ransomware_source, nameless_rss] =
     Inr [(0, ransomware_source), (Suc 0, nameless_rss)]"
  by (simp_all add: source_type_def ransomware_source_def nameless_scraper_def
        nameless_unknown_def nameless_rss_def py_def)

text \<open>
  C6. The claim says that the aggregate fetch never raises and that a source of type
  \<open>scraper\<close> or of an unknown type is skipped without keeping the items of the other
  sources from the result. The code does not do that for such a source without a \<open>name\<close>:
  both skip branches read \<open>source['name']\<close> for the warning, outside any task, so the
  \<open>KeyError\<close> leaves \<open>fetch_all_feeds\<close> and the item of the \<open>rss\<close> source before it is lost.
  The same missing key in an \<open>rss\<close> source is raised inside its task, kept by \<open>gather\<close>,
  and the other source's item is returned.
\<close>

theorem nameless_source_raises:
  "load_sources (with_sources [ransomware_source, nameless_scraper]) =
     Inr [ransomware_source, nameless_scraper] \<and>
   source_type nameless_scraper = py ''scraper'' \<and> nameless_scraper ''name'' = None \<and>
   contribution (with_sources [ransomware_source, nameless_scraper]) 0 ransomware_source =
     [ransomware_item] \<and>
   fetch_all_feeds (with_sources [ransomware_source, nameless_scraper]) =
     Inl (KeyError ''name'') \<and>
   source_type nameless_unknown = py ''odd'' \<and> nameless_unknown ''name'' = None \<and>
   fetch_all_feeds (with_sources [ransomware_source, nameless_unknown]) =
     Inl (KeyError ''name'') \<and>
   source_type nameless_rss = py ''rss'' \<and> nameless_rss ''name'' = None \<and>
   fetch_rss (with_sources [ransomware_source, nameless_rss]) 1 nameless_rss =
     Inl (KeyError ''name'') \<and>
   fetch_all_feeds (with_sources [ransomware_source, nameless_rss]) = Inr [ransomware_item]"
proof -
  have types: "source_type nameless_scraper = py ''scraper''" "nameless_scraper ''name'' = None"
    "source_type nameless_unknown = py ''odd''" "nameless_unknown ''name'' = None"
    "source_type nameless_rss = py ''rss''" "nameless_rss ''name'' = None"
    by (simp_all add: source_type_def nameless_scraper_def nameless_unknown_def nameless_rss_def)
  have loaded: "\<And>srcs. load_sources (with_sources srcs) = Inr srcs"
    by (simp add: with_sources_def)
  have raised: "fetch_all_feeds (with_sources [ransomware_source, nameless_scraper]) =
                  Inl (KeyError ''name'')"
    "fetch_all_feeds (with_sources [ransomware_source, nameless_unknown]) =
                  Inl (KeyError ''name'')"
    unfolding fetch_all_feeds_def loaded sum.case make_tasks_nameless by simp_all
  have task: "\<And>env k. fetch_rss env k nameless_rss = Inl (KeyError ''name'')"
    by (simp add: fetch_rss_def nameless_rss_def)
  have "fetch_rss (with_sources [ransomware_source, nameless_rss]) 0 ransomware_source =
          Inr [ransomware_item]"
    by (simp add: with_sources_def fetch_rss_load_sources ransomware_fetch)
  then have kept: "fetch_all_feeds (with_sources [ransomware_source, nameless_rss]) =
                     Inr [ransomware_item]"
    unfolding fetch_all_feeds_def loaded sum.case make_tasks_nameless by (simp add: gather_def task)
  from types loaded raised task kept contribution_with_sources show ?thesis by simp
qed

section \<open>Properties of the store\<close>

text \<open>
  C10. Calling upsert with an empty item list returns 0 and performs no storage access at
  all: the store that comes back, rows and access trace, is the store that went in.
\<close>

theorem upsert_empty_no_access:
  "upsert_news_items db [] = (db, 0)"
  by (simp add: upsert_news_items_def)

lemma map_url_do_update:
  "map url (map (\<lambda>r. if url r = u then do_update ex r else r) rs) = map url rs"
  by (induction rs) (simp_all add: do_update_def)

lemma execute_insert_Inr:
  "execute_insert rs it = Inr rs' \<longleftrightarrow>
     (\<exists>ex. excluded it = Inr ex \<and>
        rs' = (if url ex \<in> set (map url rs)
               then map (\<lambda>r. if url r = url ex then do_update ex r else r) rs
               else rs @ [ex]))"
  by (auto simp: execute_insert_def split: sum.splits)

lemma execute_insert_Inl:
  "execute_insert rs it = Inl e \<longleftrightarrow> excluded it = Inl e"
  by (auto simp: execute_insert_def split: sum.splits)

lemma distinct_execute_insert:
  assumes "distinct (map url rs)" and "execute_insert rs it = Inr rs'"
  shows "distinct (map url rs')"
proof -
  from assms(2) obtain ex where rs': "rs' = (if url ex \<in> set (map url rs)
               then map (\<lambda>r. if url r = url ex then do_update ex r else r) rs
               else rs @ [ex])"
    unfolding execute_insert_Inr by blast
  show ?thesis
  proof (cases "url ex \<in> set (map url rs)")
    case True
    with rs' have "map url rs' = map url rs" by (simp only: if_True map_url_do_update)
    with assms(1) show ?thesis by simp
  next
    case False
    with rs' assms(1) show ?thesis by simp
  qed
qed

lemma distinct_insert_loop:
  "distinct (map url rs) \<Longrightarrow> distinct (map url (insert_loop rs its))"
proof (induction its arbitrary: rs)
  case Nil
  then show ?case by simp
next
  case (Cons it its)
  show ?case
  proof (cases "execute_insert rs it")
    case (Inl e)
    with Cons show ?thesis by simp
  next
    case (Inr rs')
    from Cons.prems Inr have "distinct (map url rs')" by (rule distinct_execute_insert)
    with Cons.IH Inr show ?thesis by simp
  qed
qed

lemma insert_loop_append:
  "insert_loop rs (xs @ ys) = insert_loop (insert_loop rs xs) ys"
  by (induction xs arbitrary: rs) (simp_all split: sum.splits)

lemma news_items_upsert:
  "news_items (fst (upsert_news_items db its)) = insert_loop (news_items db) its"
  by (simp add: upsert_news_items_def Let_def)

lemma news_items_upsert_calls:
  "news_items (upsert_calls db bs) = insert_loop (news_items db) (concat bs)"
  unfolding upsert_calls_def
  by (induction bs arbitrary: db) (simp_all add: news_items_upsert insert_loop_append)

lemma at_most_one_row:
  "distinct (map url rs) \<Longrightarrow> length (filter (\<lambda>r. url r = u) rs) \<le> 1"
proof (induction rs)
  case Nil
  show ?case by simp
next
  case (Cons r rs)
  show ?case
  proof (cases "url r = u")
    case True
    with Cons.prems have "u \<notin> url ` set rs" by simp
    then have "\<forall>x\<in>set rs. url x \<noteq> u" by blast
    then have "filter (\<lambda>r. url r = u) rs = []" by (simp add: filter_empty_conv)
    with True show ?thesis by simp
  next
    case False
    with Cons show ?thesis by simp
  qed
qed

text \<open>
  C9. Starting from the empty store, after any sequence of upsert calls no two stored rows
  share a url: for every url at most one row carries it.
\<close>

theorem url_unique_after_upserts:
  "distinct (map url (news_items (upsert_calls empty_store batches))) \<and>
   length (filter (\<lambda>r. url r = u) (news_items (upsert_calls empty_store batches))) \<le> 1"
proof -
  have "distinct (map url (news_items empty_store))" by (simp add: empty_store_def)
  then have d: "distinct (map url (news_items (upsert_calls empty_store batches)))"
    by (simp only: news_items_upsert_calls distinct_insert_loop)
  from at_most_one_row[OF d] d show ?thesis by simp
qed

lemma urls_execute_insert:
  assumes "execute_insert rs it = Inr rs'" and "excluded it = Inr ex"
  shows "set (map url rs') = insert (url ex) (set (map url rs))"
proof -
  from assms have rs': "rs' = (if url ex \<in> set (map url rs)
               then map (\<lambda>r. if url r = url ex then do_update ex r else r) rs
               else rs @ [ex])"
    unfolding execute_insert_Inr by auto
  show ?thesis
  proof (cases "url ex \<in> set (map url rs)")
    case True
    with rs' have "map url rs' = map url rs" by (simp only: if_True map_url_do_update)
    with True show ?thesis by auto
  next
    case False
    with rs' show ?thesis by simp
  qed
qed

lemma urls_insert_loop_mono:
  "set (map url rs) \<subseteq> set (map url (insert_loop rs its))"
proof (induction its arbitrary: rs)
  case Nil
  show ?case by simp
next
  case (Cons it its)
  show ?case
  proof (cases "execute_insert rs it")
    case (Inl e)
    with Cons.IH[of rs] show ?thesis by simp
  next
    case (Inr rs')
    then obtain ex where "excluded it = Inr ex" unfolding execute_insert_Inr by blast
    with Inr have "set (map url rs) \<subseteq> set (map url rs')"
      using urls_execute_insert by blast
    with Cons.IH[of rs'] Inr show ?thesis by auto
  qed
qed

lemma stored_after_insert_loop:
  "it \<in> set its \<Longrightarrow> excluded it = Inr ex \<Longrightarrow> url ex \<in> set (map url (insert_loop rs its))"
proof (induction its arbitrary: rs)
  case Nil
  then show ?case by simp
next
  case (Cons a its)
  show ?case
  proof (cases "it = a")
    case True
    with Cons.prems(2) obtain rs' where r: "execute_insert rs a = Inr rs'"
      unfolding execute_insert_Inr by blast
    with True Cons.prems(2) have "url ex \<in> set (map url rs')"
      using urls_execute_insert by blast
    with urls_insert_loop_mono[of rs' its] r show ?thesis by auto
  next
    case False
    with Cons.prems have "it \<in> set its" by simp
    from Cons.IH[OF this Cons.prems(2)] show ?thesis by (simp split: sum.splits)
  qed
qed

lemma length_insert_loop_known:
  "(\<And>it ex. it \<in> set its \<Longrightarrow> excluded it = Inr ex \<Longrightarrow> url ex \<in> set (map url rs))
     \<Longrightarrow> length (insert_loop rs its) = length rs"
proof (induction its arbitrary: rs)
  case Nil
  show ?case by simp
next
  case (Cons a its)
  show ?case
  proof (cases "execute_insert rs a")
    case (Inl e)
    have "length (insert_loop rs its) = length rs"
      by (rule Cons.IH) (rule Cons.prems, simp_all)
    with Inl show ?thesis by simp
  next
    case (Inr rs')
    then obtain ex where ex: "excluded a = Inr ex" unfolding execute_insert_Inr by blast
    have known: "url ex \<in> set (map url rs)" by (rule Cons.prems[of a]) (simp_all add: ex)
    with Inr ex have rs': "rs' = map (\<lambda>r. if url r = url ex then do_update ex r else r) rs"
      unfolding execute_insert_Inr by auto
    then have same: "map url rs' = map url rs" by (simp only: map_url_do_update)
    have "length (insert_loop rs' its) = length rs'"
    proof (rule Cons.IH)
      fix it ex' assume "it \<in> set its" "excluded it = Inr ex'"
      then have "url ex' \<in> set (map url rs)" by (intro Cons.prems[of it]) simp_all
      with same show "url ex' \<in> set (map url rs')" by simp
    qed
    with rs' Inr show ?thesis by simp
  qed
qed

text \<open>
  C3. Upserting a batch and then the identical batch again, with nothing written in
  between, makes the second call return 0.
\<close>

theorem second_upsert_inserts_nothing:
  "snd (upsert_news_items (fst (upsert_news_items db items)) items) = 0"
proof (cases "items = []")
  case True
  then show ?thesis by (simp add: upsert_news_items_def)
next
  case False
  let ?rs = "insert_loop (news_items db) items"
  have "length (insert_loop ?rs items) = length ?rs"
    by (rule length_insert_loop_known) (rule stored_after_insert_loop)
  with False show ?thesis by (simp add: upsert_news_items_def Let_def)
qed

lemma url_do_update [simp]: "url (do_update ex r) = url r"
  by (simp add: do_update_def)

lemma find_map_do_update:
  "find (\<lambda>r. url r = u) (map (\<lambda>r. if url r = v then do_update ex r else r) rs) =
     (if u = v then map_option (do_update ex) (find (\<lambda>r. url r = u) rs)
      else find (\<lambda>r. url r = u) rs)"
  by (induction rs) auto

lemma find_snoc:
  "find P (xs @ [x]) = (case find P xs of None \<Rightarrow> (if P x then Some x else None) | Some y \<Rightarrow> Some y)"
  by (induction xs) auto

lemma find_url_None: "find (\<lambda>r. url r = u) rs = None \<longleftrightarrow> u \<notin> set (map url rs)"
  by (auto simp: find_None_iff)

lemma find_execute_insert:
  assumes "execute_insert rs it = Inr rs'"
  shows "find (\<lambda>r. url r = u) rs' = track u it (find (\<lambda>r. url r = u) rs)"
proof -
  from assms obtain ex where ex: "excluded it = Inr ex"
    and rs': "rs' = (if url ex \<in> set (map url rs)
               then map (\<lambda>r. if url r = url ex then do_update ex r else r) rs
               else rs @ [ex])"
    unfolding execute_insert_Inr by blast
  show ?thesis
  proof (cases "url ex \<in> set (map url rs)")
    case True
    then have "find (\<lambda>r. url r = url ex) rs \<noteq> None" by (simp only: find_url_None) simp
    then obtain r where "find (\<lambda>r. url r = url ex) rs = Some r" by blast
    with True rs' ex show ?thesis
      by (auto simp: find_map_do_update track_def merge_into_def simp del: set_map)
  next
    case False
    then have "find (\<lambda>r. url r = url ex) rs = None" by (simp only: find_url_None) simp
    with False rs' ex show ?thesis
      by (auto simp: find_snoc track_def merge_into_def split: option.splits simp del: set_map)
  qed
qed

lemma track_Inl: "excluded it = Inl e \<Longrightarrow> track u it ro = ro"
  by (simp add: track_def)

lemma find_insert_loop:
  "find (\<lambda>r. url r = u) (insert_loop rs its) = fold (track u) its (find (\<lambda>r. url r = u) rs)"
proof (induction its arbitrary: rs)
  case Nil
  show ?case by simp
next
  case (Cons it its)
  show ?case
  proof (cases "execute_insert rs it")
    case (Inl e)
    then have "excluded it = Inl e" by (simp only: execute_insert_Inl)
    with Inl Cons.IH[of rs] show ?thesis by (simp add: track_Inl)
  next
    case (Inr rs')
    with Cons.IH[of rs'] find_execute_insert[OF Inr, of u] show ?thesis by simp
  qed
qed

lemma bind_error_None: "bind_error v = None \<longleftrightarrow> bindable v"
  by (cases v rule: bind_error.cases) (simp_all add: bindable_def)

lemma bind_parameters_None:
  "bind_parameters it ks = None \<longleftrightarrow> list_all (\<lambda>k. bindable (it k)) ks"
proof (induction ks)
  case Nil
  show ?case by simp
next
  case (Cons k ks)
  show ?case
  proof (cases "bind_error (it k)")
    case None
    then have "bindable (it k)" by (simp only: bind_error_None)
    with None Cons show ?thesis by simp
  next
    case (Some e)
    then have "\<not> bindable (it k)" using bind_error_None[of "it k"] by simp
    with Some show ?thesis by simp
  qed
qed

lemma excluded_Inr_iff:
  "excluded it = Inr ex \<longleftrightarrow>
     storable it \<and>
     ex = \<lparr> title = item_text it ''title'', url = item_text it ''url'',
            summary = item_val it ''summary'', published_at = item_val it ''published_at'',
            source_name = item_text it ''source_name'', category = item_text it ''category'',
            fetched_at = item_text it ''fetched_at'' \<rparr>"
proof (cases "bind_parameters it columns")
  case None
  then have "list_all (\<lambda>k. bindable (it k)) columns" by (simp only: bind_parameters_None)
  with None show ?thesis by (auto simp: excluded_def storable_def)
next
  case (Some e)
  then have "\<not> list_all (\<lambda>k. bindable (it k)) columns"
    using bind_parameters_None[of it columns] by simp
  with Some show ?thesis by (simp add: excluded_def storable_def)
qed

lemma excluded_storable: "storable it \<longleftrightarrow> (\<exists>ex. excluded it = Inr ex)"
  by (simp add: excluded_Inr_iff)

text \<open>
  An item that cannot be written is skipped and leaves the table as it was; the item with
  the lone surrogate is one.
\<close>

lemma unwritable_item_skipped: "\<not> storable it \<Longrightarrow> insert_loop rs [it] = rs"
proof -
  assume "\<not> storable it"
  then have "\<And>ex. excluded it \<noteq> Inr ex" by (simp add: excluded_Inr_iff)
  then obtain e where "excluded it = Inl e" by (cases "excluded it") auto
  then show ?thesis by (simp add: execute_insert_def)
qed

lemma surrogate_item_skipped:
  "\<not> storable surrogate_item"
  "excluded surrogate_item = Inl UnicodeEncodeError"
  "insert_loop [first_row] [surrogate_item] = [first_row]"
proof -
  show a: "excluded surrogate_item = Inl UnicodeEncodeError"
    by (simp add: excluded_def surrogate_item_def news_item_def columns_def encodable_def py_def)
  then show b: "\<not> storable surrogate_item" by (simp add: excluded_storable)
  then show "insert_loop [first_row] [surrogate_item] = [first_row]"
    by (rule unwritable_item_skipped)
qed

lemma excluded_fields:
  assumes "excluded it = Inr ex"
  shows "it ''url'' = Some (Text (url ex))"
    and "summary ex = item_val it ''summary''"
    and "fetched_at ex = item_text it ''fetched_at''"
proof -
  from assms have st: "storable it"
    and ex: "ex = \<lparr> title = item_text it ''title'',
                 url = item_text it ''url'',
                 summary = item_val it ''summary'',
                 published_at = item_val it ''published_at'',
                 source_name = item_text it ''source_name'',
                 category = item_text it ''category'',
                 fetched_at = item_text it ''fetched_at'' \<rparr>"
    by (simp_all add: excluded_Inr_iff)
  from st have "bindable (it ''url'')" "it ''url'' \<noteq> Some Null"
    by (simp_all add: storable_def columns_def not_null_columns_def)
  then obtain s where "it ''url'' = Some (Text s)"
    by (cases "it ''url''"; cases "the (it ''url'')") (auto simp: bindable_def)
  with ex show "it ''url'' = Some (Text (url ex))" by simp
  from ex show "summary ex = item_val it ''summary''" by simp
  from ex show "fetched_at ex = item_text it ''fetched_at''" by simp
qed

lemma track_other:
  "it ''url'' \<noteq> Some (Text u) \<Longrightarrow> track u it ro = ro"
  by (auto simp: track_def dest: excluded_fields(1) split: sum.splits)

lemma fold_track_other:
  "\<forall>J\<in>set its. J ''url'' \<noteq> Some (Text u) \<Longrightarrow> fold (track u) its ro = ro"
  by (induction its arbitrary: ro) (simp_all add: track_other)

lemma fold_track_filter:
  "fold (track u) its ro = fold (track u) (filter (\<lambda>i. i ''url'' = Some (Text u)) its) ro"
  by (induction its arbitrary: ro) (simp_all add: track_other)

lemma track_same:
  assumes "storable it" and "it ''url'' = Some (Text u)"
  shows "\<exists>ex. excluded it = Inr ex \<and> track u it ro = merge_into ro ex"
proof -
  from assms(1) obtain ex where ex: "excluded it = Inr ex" using excluded_storable by blast
  with assms(2) have "url ex = u" using excluded_fields(1) by fastforce
  with ex show ?thesis by (simp add: track_def)
qed

text \<open>
  C1. For a stored row \<open>R\<close> and an incoming item \<open>I\<close> with the same url (an item the
  statement can write: all seven parameters supplied, every text encodable as UTF-8, no
  \<open>NULL\<close> in a \<open>NOT NULL\<close> column; any other item is skipped by the \<open>except\<close> branch),
  in a batch whose other items are for other urls, the upsert leaves for that url a row
  whose summary is that of \<open>I\<close> when it is non-empty and that of \<open>R\<close> otherwise, whose
  \<open>fetched_at\<close> is that of \<open>I\<close>, and whose title, \<open>published_at\<close>, \<open>source_name\<close> and
  category are those of \<open>R\<close>.
\<close>

theorem upsert_conflict_merge:
  assumes stored: "row_of db u = Some R"
    and wf: "storable I"
    and same: "I ''url'' = Some (Text u)"
    and others: "\<forall>J\<in>set (pre @ post). J ''url'' \<noteq> Some (Text u)"
  shows "\<exists>R'. row_of (fst (upsert_news_items db (pre @ I # post))) u = Some R' \<and>
           summary R' = (if nonempty (item_val I ''summary'') then item_val I ''summary''
                         else summary R) \<and>
           fetched_at R' = item_text I ''fetched_at'' \<and>
           title R' = title R \<and> published_at R' = published_at R \<and>
           source_name R' = source_name R \<and> category R' = category R"
proof -
  from track_same[OF wf same] obtain ex where ex: "excluded I = Inr ex"
    and tr: "track u I (Some R) = merge_into (Some R) ex" by blast
  from others have pre: "fold (track u) pre (Some R) = Some R"
    and post: "\<And>ro. fold (track u) post ro = ro"
    by (simp_all add: fold_track_other)
  have "row_of (fst (upsert_news_items db (pre @ I # post))) u =
          fold (track u) (pre @ I # post) (row_of db u)"
    by (simp only: row_of_def news_items_upsert find_insert_loop)
  also have "\<dots> = Some (do_update ex R)"
    by (simp add: stored pre post tr merge_into_def)
  finally have "row_of (fst (upsert_news_items db (pre @ I # post))) u = Some (do_update ex R)" .
  moreover have "summary ex = item_val I ''summary''" "fetched_at ex = item_text I ''fetched_at''"
    using excluded_fields[OF ex] by simp_all
  ultimately show ?thesis by (simp add: do_update_def)
qed

lemma merged_summary_single: "merged_summary [x] = item_val x ''summary''"
  by (simp add: merged_summary_def)

lemma merged_summary_snoc:
  "us \<noteq> [] \<Longrightarrow> merged_summary (us @ [x]) =
     (if nonempty (item_val x ''summary'') then item_val x ''summary'' else merged_summary us)"
  by (auto simp: merged_summary_def split: list.splits)

lemma fold_track_same:
  assumes "us \<noteq> []"
    and "\<forall>i\<in>set us. storable i \<and> i ''url'' = Some (Text u)"
  shows "\<exists>R. fold (track u) us None = Some R \<and>
           fetched_at R = item_text (last us) ''fetched_at'' \<and>
           summary R = merged_summary us"
  using assms
proof (induction us rule: rev_induct)
  case Nil
  then show ?case by simp
next
  case (snoc x us)
  from snoc.prems(2) have wf: "storable x" and same: "x ''url'' = Some (Text u)" by simp_all
  from track_same[OF wf same] obtain ex where ex: "excluded x = Inr ex"
    and tr: "\<And>ro. track u x ro = merge_into ro ex" 
    by (metis Inr_inject)
  have sx: "summary ex = item_val x ''summary''" and fx: "fetched_at ex = item_text x ''fetched_at''"
    using excluded_fields[OF ex] by simp_all
  show ?case
  proof (cases "us = []")
    case True
    then show ?thesis
      by (simp add: tr merge_into_def sx fx merged_summary_single)
  next
    case False
    with snoc obtain R where R: "fold (track u) us None = Some R"
      and sR: "summary R = merged_summary us" by auto
    have "fold (track u) (us @ [x]) None = Some (do_update ex R)"
      by (simp add: R tr merge_into_def)
    moreover have "fetched_at (do_update ex R) = item_text (last (us @ [x])) ''fetched_at''"
      by (simp add: do_update_def fx)
    moreover have "summary (do_update ex R) = merged_summary (us @ [x])"
      by (simp add: do_update_def sx sR merged_summary_snoc[OF False])
    ultimately show ?thesis by blast
  qed
qed

text \<open>
  C2, as amended. For a url \<open>u\<close> not stored yet and a sequence of upsert calls, let \<open>us\<close>
  be the items supplied for \<open>u\<close> across the calls, in order, all of them writable and at
  least one. After the last call the stored summary for \<open>u\<close> is the most recent non-empty
  summary supplied (the summary of the first item when none is non-empty), and the stored
  \<open>fetched_at\<close> is that of the most recent item.
\<close>

theorem upsert_merge_law:
  assumes fresh: "row_of db u = None"
    and us: "us = filter (\<lambda>i. i ''url'' = Some (Text u)) (concat batches)"
    and some: "us \<noteq> []"
    and wf: "\<forall>i\<in>set us. storable i"
  shows "\<exists>R. row_of (upsert_calls db batches) u = Some R \<and>
           fetched_at R = item_text (last us) ''fetched_at'' \<and>
           summary R = merged_summary us"
proof -
  have "row_of (upsert_calls db batches) u = fold (track u) (concat batches) (row_of db u)"
    by (simp only: row_of_def news_items_upsert_calls find_insert_loop)
  also have "\<dots> = fold (track u) us None"
    unfolding us fresh by (rule fold_track_filter)
  finally have eq: "row_of (upsert_calls db batches) u = fold (track u) us None" .
  from wf us have "\<forall>i\<in>set us. storable i \<and> i ''url'' = Some (Text u)" by simp
  from fold_track_same[OF some this] eq show ?thesis by simp
qed

lemma storable_news_item:
  "list_all encodable [t, u, s, p, n, c, f] \<Longrightarrow> storable (news_item t u s p n c f)"
  by (simp add: storable_def bindable_def news_item_def columns_def not_null_columns_def)

lemma excluded_news_item:
  "list_all encodable [t, u, s, p, n, c, f] \<Longrightarrow>
   excluded (news_item t u s p n c f) =
     Inr \<lparr> title = t, url = u, summary = Text s, published_at = Text p, source_name = n,
           category = c, fetched_at = f \<rparr>"
  unfolding excluded_Inr_iff
  by (simp add: storable_def bindable_def news_item_def columns_def not_null_columns_def)

lemma storable_examples: "storable first_item" "storable second_item"
  by (simp_all add: first_item_def second_item_def storable_news_item encodable_def py_def)

lemma excluded_examples:
  "excluded first_item = Inr first_row"
  "excluded second_item =
     Inr \<lparr> title = py ''T2'', url = py ''u'', summary = Text (py ''b''),
           published_at = Text (py ''2024-01-02''), source_name = py ''S'', category = py ''c'',
           fetched_at = py ''f2'' \<rparr>"
  unfolding first_item_def second_item_def first_row_def
  by (rule excluded_news_item, simp add: encodable_def py_def)+

lemma two_calls: "news_items (upsert_calls empty_store [[first_item], [second_item]]) =
   [first_row\<lparr> summary := Text (py ''b''), fetched_at := py ''f2'' \<rparr>]"
  by (simp add: news_items_upsert_calls empty_store_def execute_insert_def excluded_examples
      do_update_def first_row_def py_def)

text \<open>
  C2, as stated, fails: two calls supply the summaries \<open>a\<close> and then \<open>b\<close> for one url; the
  first non-empty summary supplied is \<open>a\<close>, the stored one is \<open>b\<close>.
\<close>

theorem first_summary_not_kept:
  "map_option summary (row_of (upsert_calls empty_store [[first_item], [second_item]]) (py ''u''))
     = Some (Text (py ''b'')) \<and>
   find nonempty (map (\<lambda>i. item_val i ''summary'') [first_item, second_item])
     = Some (Text (py ''a'')) \<and>
   Text (py ''a'') \<noteq> Text (py ''b'')"
proof -
  have "map_option summary
          (row_of (upsert_calls empty_store [[first_item], [second_item]]) (py ''u''))
        = Some (Text (py ''b''))"
    unfolding row_of_def two_calls by (simp add: first_row_def)
  moreover have "find nonempty (map (\<lambda>i. item_val i ''summary'') [first_item, second_item])
        = Some (Text (py ''a''))"
    by (simp add: first_item_def second_item_def news_item_def py_def)
  moreover have "Text (py ''a'') \<noteq> Text (py ''b'')" by (simp add: py_def)
  ultimately show ?thesis by blast
qed

theorem upsert_conflict_merge_witness:
  "row_of \<lparr> news_items = [first_row], accesses = [] \<rparr> (py ''u'') = Some first_row \<and>
   storable second_item \<and> second_item ''url'' = Some (Text (py ''u'')) \<and>
   (\<exists>R'. row_of (fst (upsert_news_items \<lparr> news_items = [first_row], accesses = [] \<rparr>
                        ([] @ second_item # []))) (py ''u'') = Some R' \<and>
           summary R' = (if nonempty (item_val second_item ''summary'')
                         then item_val second_item ''summary'' else summary first_row) \<and>
           fetched_at R' = item_text second_item ''fetched_at'' \<and>
           title R' = title first_row \<and> published_at R' = published_at first_row \<and>
           source_name R' = source_name first_row \<and> category R' = category first_row)"
proof -
  have a: "row_of \<lparr> news_items = [first_row], accesses = [] \<rparr> (py ''u'') = Some first_row"
    by (simp add: row_of_def first_row_def)
  have b: "storable second_item" by (rule storable_examples)
  have c: "second_item ''url'' = Some (Text (py ''u''))"
    by (simp add: second_item_def news_item_def)
  have d: "\<forall>J\<in>set ([] @ []). J ''url'' \<noteq> Some (Text (py ''u''))" by simp
  from upsert_conflict_merge[OF a b c d] a b c show ?thesis by blast
qed

theorem upsert_merge_law_witness:
  "row_of empty_store (py ''u'') = None \<and>
   [first_item, second_item] =
      filter (\<lambda>i. i ''url'' = Some (Text (py ''u''))) (concat [[first_item], [second_item]]) \<and>
   storable first_item \<and> storable second_item \<and>
   (\<exists>R. row_of (upsert_calls empty_store [[first_item], [second_item]]) (py ''u'') = Some R \<and>
           fetched_at R = item_text (last [first_item, second_item]) ''fetched_at'' \<and>
           summary R = merged_summary [first_item, second_item])"
proof -
  have a: "row_of empty_store (py ''u'') = None" by (simp add: row_of_def empty_store_def)
  have b: "[first_item, second_item] =
      filter (\<lambda>i. i ''url'' = Some (Text (py ''u''))) (concat [[first_item], [second_item]])"
    by (simp add: first_item_def second_item_def news_item_def)
  have c: "[first_item, second_item] \<noteq> []" by simp
  have s: "storable first_item" "storable second_item"
    by (rule storable_examples)+
  then have d: "\<forall>i\<in>set [first_item, second_item]. storable i" by simp
  from upsert_merge_law[OF a b c d] a b s show ?thesis by blast
qed

section \<open>Properties of the reads\<close>






end
